theory Spec2Isabelle
  imports Main "HOL-Library.Log_Nat"
begin

text \<open>
  A model of \<^verbatim>\<open>app.js\<close>, the Express handler of \<^verbatim>\<open>POST /transfer\<close> over a Mongoose
  collection of accounts, and what holds of it.

  The handler is the function \<open>transfer\<close>: from the parsed request body, the collection and
  the environment of the request to the response, the collection afterwards and the calls
  made on the store. The same code cut at its awaits is the function \<open>step\<close>, and \<open>run\<close>
  executes the operations of several requests in the order a schedule gives. Numbers are
  IEEE doubles with their rounding. Two things are not in \<^verbatim>\<open>app.js\<close> and are parameters:
  what \<^verbatim>\<open>ObjectId.isValid\<close> accepts and how an id is cast (the record \<open>mongoose\<close>), and
  which store operations the database rejects (the record \<open>faults\<close>).
\<close>

section \<open>JavaScript values\<close>

subsection \<open>Numbers\<close>

text \<open>
  A JavaScript Number is an IEEE 754 binary64 value. The finite ones are rationals, so a
  number is modelled by its exact value or by one of the three special values. The two
  zeros are not told apart: no path of \<^verbatim>\<open>app.js\<close> distinguishes them (both are falsy,
  both compare equal, and \<^verbatim>\<open>JSON.stringify\<close> prints both as 0).
\<close>

datatype jsnum = Fin rat | NaN | PosInf | NegInf

text \<open>Rounding to the nearest integer, ties to the even one.\<close>

definition round_even :: "rat \<Rightarrow> int" where
  "round_even x =
     (let f = \<lfloor>x\<rfloor>; d = x - of_int f
      in if d < 1/2 then f else if 1/2 < d then f + 1 else if even f then f else f + 1)"

text \<open>The binary exponent \<open>\<lfloor>log\<^sub>2 \<bar>x\<bar>\<rfloor>\<close> of a non-zero rational.\<close>

definition ilog2 :: "rat \<Rightarrow> int" where
  "ilog2 x =
     (let (p, q) = quotient_of \<bar>x\<bar>; d = bitlen p - bitlen q
      in if 2 powi d \<le> \<bar>x\<bar> then d else d - 1)"

text \<open>
  The result of an arithmetic operation whose exact value is \<open>x\<close>: 53 significant bits,
  exponents from -1022 (below it the spacing stays at \<open>2\<^sup>-\<^sup>1\<^sup>0\<^sup>7\<^sup>4\<close>), round to nearest with
  ties to even, and infinity once the rounded value reaches \<open>2\<^sup>1\<^sup>0\<^sup>2\<^sup>4\<close>.
\<close>

definition fround :: "rat \<Rightarrow> jsnum" where
  "fround x =
     (if x = 0 then Fin 0
      else
        let e = max (ilog2 x) (- 1022);
            u = 2 powi (e - 52);
            r = of_int (round_even (x / u)) * u
        in if 2 powi 1024 \<le> \<bar>r\<bar> then (if 0 < x then PosInf else NegInf) else Fin r)"

fun js_neg :: "jsnum \<Rightarrow> jsnum" where
  "js_neg (Fin a) = Fin (- a)"
| "js_neg NaN = NaN"
| "js_neg PosInf = NegInf"
| "js_neg NegInf = PosInf"

text \<open>The operator \<^verbatim>\<open>+\<close> on two Numbers.\<close>

fun js_add :: "jsnum \<Rightarrow> jsnum \<Rightarrow> jsnum" where
  "js_add (Fin a) (Fin b) = fround (a + b)"
| "js_add NaN y = NaN"
| "js_add x NaN = NaN"
| "js_add PosInf NegInf = NaN"
| "js_add NegInf PosInf = NaN"
| "js_add PosInf y = PosInf"
| "js_add x PosInf = PosInf"
| "js_add NegInf y = NegInf"
| "js_add x NegInf = NegInf"

text \<open>The operator \<^verbatim>\<open>-\<close> on two Numbers.\<close>

definition js_sub :: "jsnum \<Rightarrow> jsnum \<Rightarrow> jsnum" where
  "js_sub x y = js_add x (js_neg y)"

text \<open>The comparisons \<^verbatim>\<open><\<close> and \<^verbatim>\<open><=\<close> on two Numbers: false as soon as one is NaN.\<close>

fun js_lt :: "jsnum \<Rightarrow> jsnum \<Rightarrow> bool" where
  "js_lt (Fin a) (Fin b) = (a < b)"
| "js_lt NaN y = False"
| "js_lt x NaN = False"
| "js_lt x NegInf = False"
| "js_lt NegInf y = True"
| "js_lt PosInf y = False"
| "js_lt x PosInf = True"

definition js_le :: "jsnum \<Rightarrow> jsnum \<Rightarrow> bool" where
  "js_le x y = (x \<noteq> NaN \<and> y \<noteq> NaN \<and> \<not> js_lt y x)"

subsection \<open>Values of a parsed JSON body\<close>

text \<open>
  \<^verbatim>\<open>bodyParser.json()\<close> fills \<^verbatim>\<open>req.body\<close> from \<^verbatim>\<open>JSON.parse\<close>; a field the body does
  not have reads as \<^verbatim>\<open>undefined\<close>. \<^verbatim>\<open>JSON.parse\<close> yields no NaN, but it does yield
  infinities (the literal \<^verbatim>\<open>1e999\<close>).
\<close>

datatype jsval =
    JUndefined
  | JNull
  | JBool bool
  | JNum jsnum
  | JStr string
  | JArr "jsval list"
  | JObj "(string \<times> jsval) list"

text \<open>The truthiness that \<^verbatim>\<open>!x\<close> negates.\<close>

fun truthy :: "jsval \<Rightarrow> bool" where
  "truthy JUndefined = False"
| "truthy JNull = False"
| "truthy (JBool b) = b"
| "truthy (JNum n) = (n \<noteq> Fin 0 \<and> n \<noteq> NaN)"
| "truthy (JStr s) = (s \<noteq> [])"
| "truthy (JArr xs) = True"
| "truthy (JObj kvs) = True"

text \<open>
  Strict equality \<^verbatim>\<open>===\<close> of two fields of one parsed body. Objects and arrays compare by
  reference, and the parser builds a fresh one for every field, so two of them are never equal.
\<close>

fun strict_eq :: "jsval \<Rightarrow> jsval \<Rightarrow> bool" where
  "strict_eq JUndefined JUndefined = True"
| "strict_eq JNull JNull = True"
| "strict_eq (JBool a) (JBool b) = (a = b)"
| "strict_eq (JNum a) (JNum b) = (a = b \<and> a \<noteq> NaN)"
| "strict_eq (JStr a) (JStr b) = (a = b)"
| "strict_eq x y = False"

text \<open>A value that is neither an object nor an array.\<close>

fun primitive :: "jsval \<Rightarrow> bool" where
  "primitive (JArr xs) = False"
| "primitive (JObj kvs) = False"
| "primitive v = True"

text \<open>\<^verbatim>\<open>typeof v === 'number'\<close>.\<close>

fun is_number :: "jsval \<Rightarrow> bool" where
  "is_number (JNum n) = True"
| "is_number v = False"

text \<open>
  The Number inside a value that passed the \<^verbatim>\<open>typeof\<close> test. The handler compares and
  adds \<^verbatim>\<open>amount\<close> only after that test, so the second equation is never reached by it
  (lemma \<open>validate_None_amount\<close> below).
\<close>

fun num_of :: "jsval \<Rightarrow> jsnum" where
  "num_of (JNum n) = n"
| "num_of v = NaN"

text \<open>A Number greater than zero; positive infinity is one.\<close>

definition positive :: "jsval \<Rightarrow> bool" where
  "positive v = (is_number v \<and> js_lt (Fin 0) (num_of v))"

section \<open>The account collection\<close>

type_synonym objectId = string

text \<open>\<^verbatim>\<open>accountSchema\<close>: a document has its \<^verbatim>\<open>_id\<close>, a name and a balance.\<close>

record account =
  oid :: objectId
  name :: string
  balance :: jsnum

type_synonym collection = "account list"

text \<open>
  A document in memory, as \<^verbatim>\<open>findById\<close> hands it to the handler: the fields of the stored
  document, and the balance it was loaded with. Mongoose takes \<^verbatim>\<open>balance\<close> for a modified
  path when the handler has set it to another value than that one.
\<close>

record document = account +
  loaded_balance :: jsnum

definition load :: "account \<Rightarrow> document" where
  "load a = \<lparr>oid = oid a, name = name a, balance = balance a, loaded_balance = balance a\<rparr>"

text \<open>
  The schema's validators, which \<^verbatim>\<open>save()\<close> runs before it writes: \<^verbatim>\<open>name\<close> is required
  (for a String path the empty string does not count), \<^verbatim>\<open>balance\<close> is required with
  \<^verbatim>\<open>min: 0\<close>.
\<close>

definition schema_valid :: "document \<Rightarrow> bool" where
  "schema_valid d = (name d \<noteq> [] \<and> js_le (Fin 0) (balance d))"

text \<open>
  The part of the mongoose library the handler calls and \<^verbatim>\<open>app.js\<close> does not define:
  \<^verbatim>\<open>mongoose.Types.ObjectId.isValid\<close>, and the cast of a queried id to an ObjectId that
  \<^verbatim>\<open>findById\<close> performs. Both are parameters of the model.
\<close>

record mongoose =
  ObjectId_isValid :: "jsval \<Rightarrow> bool"
  castObjectId :: "jsval \<Rightarrow> objectId option"

datatype error = CastError | ValidationError | DocumentNotFoundError | StoreError

text \<open>
  A store operation can be rejected by the database or the connection, whatever the handler
  does. The environment of one request says which of its four operations are.
\<close>

record faults =
  find_sender_fails :: bool
  find_receiver_fails :: bool
  save_sender_fails :: bool
  save_receiver_fails :: bool

definition no_faults :: faults where
  "no_faults = \<lparr>find_sender_fails = False, find_receiver_fails = False,
     save_sender_fails = False, save_receiver_fails = False\<rparr>"

definition lookup :: "objectId \<Rightarrow> collection \<Rightarrow> account option" where
  "lookup k db = find (\<lambda>a. oid a = k) db"

text \<open>\<^verbatim>\<open>Account.findById(v)\<close>: the document or \<^verbatim>\<open>null\<close>, or a rejected promise.\<close>

definition findById :: "mongoose \<Rightarrow> bool \<Rightarrow> jsval \<Rightarrow> collection \<Rightarrow> error + document option" where
  "findById m fails v db =
     (case castObjectId m v of
        None \<Rightarrow> Inl CastError
      | Some k \<Rightarrow> if fails then Inl StoreError else Inr (map_option load (lookup k db)))"

text \<open>
  The update \<^verbatim>\<open>save()\<close> sends for a document whose modified path is \<^verbatim>\<open>balance\<close>: it sets
  that field in the stored document with the same \<^verbatim>\<open>_id\<close>. \<open>None\<close> when no stored
  document has the id.
\<close>

fun updateOne :: "objectId \<Rightarrow> jsnum \<Rightarrow> collection \<Rightarrow> collection option" where
  "updateOne k b [] = None"
| "updateOne k b (a # as) =
     (if oid a = k then Some (a\<lparr>balance := b\<rparr> # as)
      else map_option ((#) a) (updateOne k b as))"

text \<open>
  \<^verbatim>\<open>doc.save()\<close>. The document is validated against the schema first. When \<^verbatim>\<open>balance\<close>
  is a modified path, the update that sets it is sent. When no path is modified, no update
  is sent and nothing is written: the store is only asked whether the document is still
  there. Either request can be rejected by the store.
\<close>

definition save :: "bool \<Rightarrow> document \<Rightarrow> collection \<Rightarrow> error + collection" where
  "save fails doc db =
     (if \<not> schema_valid doc then Inl ValidationError
      else if fails then Inl StoreError
      else if balance doc = loaded_balance doc
      then (case lookup (oid doc) db of
              None \<Rightarrow> Inl DocumentNotFoundError
            | Some a \<Rightarrow> Inr db)
      else (case updateOne (oid doc) (balance doc) db of
              None \<Rightarrow> Inl DocumentNotFoundError
            | Some db' \<Rightarrow> Inr db'))"

section \<open>The handler of POST /transfer\<close>

record request =
  fromAccountId :: jsval
  toAccountId :: jsval
  amount :: jsval

text \<open>
  A response: the status, the \<^verbatim>\<open>message\<close> of its body, the numeric fields of the body, and
  for a 500 the error whose message the body carries.
\<close>

record response =
  status :: nat
  message :: string
  numbers :: "(string \<times> jsnum) list"
  err :: "error option"

definition missing_fields :: response where
  "missing_fields = \<lparr>status = 400,
     message = ''Missing fields: fromAccountId, toAccountId, and amount are required.'',
     numbers = [], err = None\<rparr>"

definition bad_amount :: response where
  "bad_amount = \<lparr>status = 400, message = ''Amount must be a positive number.'',
     numbers = [], err = None\<rparr>"

definition same_account :: response where
  "same_account = \<lparr>status = 400, message = ''Cannot transfer money to the same account.'',
     numbers = [], err = None\<rparr>"

definition bad_id_format :: response where
  "bad_id_format = \<lparr>status = 400, message = ''Invalid account ID format.'',
     numbers = [], err = None\<rparr>"

definition sender_not_found :: response where
  "sender_not_found = \<lparr>status = 404, message = ''Sender account not found.'',
     numbers = [], err = None\<rparr>"

definition receiver_not_found :: response where
  "receiver_not_found = \<lparr>status = 404, message = ''Receiver account not found.'',
     numbers = [], err = None\<rparr>"

definition insufficient_funds :: "jsnum \<Rightarrow> jsnum \<Rightarrow> response" where
  "insufficient_funds current requested = \<lparr>status = 400, message = ''Insufficient funds.'',
     numbers = [(''currentBalance'', current), (''amountToTransfer'', requested)], err = None\<rparr>"

definition transfer_successful :: "jsnum \<Rightarrow> jsnum \<Rightarrow> response" where
  "transfer_successful s r = \<lparr>status = 200, message = ''Transfer successful!'',
     numbers = [(''senderNewBalance'', s), (''receiverNewBalance'', r)], err = None\<rparr>"

definition error_during_transfer :: "error \<Rightarrow> response" where
  "error_during_transfer e = \<lparr>status = 500, message = ''Error during transfer'',
     numbers = [], err = Some e\<rparr>"

text \<open>Step 1 of the handler, "Validate Input": the first check that fails answers.\<close>

definition validate :: "mongoose \<Rightarrow> request \<Rightarrow> response option" where
  "validate m req =
     (if \<not> truthy (fromAccountId req) \<or> \<not> truthy (toAccountId req) \<or> \<not> truthy (amount req)
      then Some missing_fields
      else if \<not> is_number (amount req) \<or> js_le (num_of (amount req)) (Fin 0)
      then Some bad_amount
      else if strict_eq (fromAccountId req) (toAccountId req)
      then Some same_account
      else if \<not> ObjectId_isValid m (fromAccountId req) \<or> \<not> ObjectId_isValid m (toAccountId req)
      then Some bad_id_format
      else None)"

text \<open>The calls the handler makes on the model \<^verbatim>\<open>Account\<close> and its documents, in order.\<close>

datatype store_op = FindById jsval | Save objectId jsnum

record outcome =
  reply :: response
  db_after :: collection
  ops :: "store_op list"

text \<open>
  The whole handler, run alone from the request to the response. A rejected promise is
  caught by the handler's \<^verbatim>\<open>catch\<close> and answered with 500; what was written before stays.
\<close>

definition transfer :: "mongoose \<Rightarrow> faults \<Rightarrow> request \<Rightarrow> collection \<Rightarrow> outcome" where
  "transfer m f req db =
     (case validate m req of
        Some r \<Rightarrow> \<lparr>reply = r, db_after = db, ops = []\<rparr>
      | None \<Rightarrow>
          let a = num_of (amount req);
              find1 = [FindById (fromAccountId req)];
              find2 = find1 @ [FindById (toAccountId req)]
          in
          case findById m (find_sender_fails f) (fromAccountId req) db of
            Inl e \<Rightarrow> \<lparr>reply = error_during_transfer e, db_after = db, ops = find1\<rparr>
          | Inr sender \<Rightarrow>
          case findById m (find_receiver_fails f) (toAccountId req) db of
            Inl e \<Rightarrow> \<lparr>reply = error_during_transfer e, db_after = db, ops = find2\<rparr>
          | Inr receiver \<Rightarrow>
          case sender of
            None \<Rightarrow> \<lparr>reply = sender_not_found, db_after = db, ops = find2\<rparr>
          | Some s \<Rightarrow>
          case receiver of
            None \<Rightarrow> \<lparr>reply = receiver_not_found, db_after = db, ops = find2\<rparr>
          | Some r \<Rightarrow>
          if js_lt (balance s) a
          then \<lparr>reply = insufficient_funds (balance s) a, db_after = db, ops = find2\<rparr>
          else
            let s' = s\<lparr>balance := js_sub (balance s) a\<rparr>;
                r' = r\<lparr>balance := js_add (balance r) a\<rparr>;
                save1 = find2 @ [Save (oid s') (balance s')];
                save2 = save1 @ [Save (oid r') (balance r')]
            in
            case save (save_sender_fails f) s' db of
              Inl e \<Rightarrow> \<lparr>reply = error_during_transfer e, db_after = db, ops = save1\<rparr>
            | Inr db1 \<Rightarrow>
            case save (save_receiver_fails f) r' db1 of
              Inl e \<Rightarrow> \<lparr>reply = error_during_transfer e, db_after = db1, ops = save2\<rparr>
            | Inr db2 \<Rightarrow>
                \<lparr>reply = transfer_successful (balance s') (balance r'),
                 db_after = db2, ops = save2\<rparr>)"

text \<open>Requests served one after the other, each with its own environment.\<close>

fun transfers :: "mongoose \<Rightarrow> (faults \<times> request) list \<Rightarrow> collection \<Rightarrow> response list \<times> collection" where
  "transfers m [] db = ([], db)"
| "transfers m ((f, req) # xs) db =
     (let out = transfer m f req db;
          (rs, db') = transfers m xs (db_after out)
      in (reply out # rs, db'))"

section \<open>The handler between its awaits\<close>

text \<open>
  The handler is an \<^verbatim>\<open>async\<close> function: it runs without interruption from one \<^verbatim>\<open>await\<close> to
  the next, and other requests can run while it waits. Each of its four awaits is one
  operation on the collection, so a request in flight is in one of these states: not yet
  started; sender read, about to read the receiver; both documents changed in memory, about
  to save the sender; sender saved, about to save the receiver; answered.
\<close>

datatype task =
    Start faults request
  | FoundSender faults request "document option"
  | SavingSender faults document document
  | SavingReceiver faults document document
  | Done response

text \<open>One operation on the collection, with the code that follows it up to the next await.\<close>

fun step :: "mongoose \<Rightarrow> task \<Rightarrow> collection \<Rightarrow> task \<times> collection" where
  "step m (Start f req) db =
     (case validate m req of
        Some r \<Rightarrow> (Done r, db)
      | None \<Rightarrow>
          (case findById m (find_sender_fails f) (fromAccountId req) db of
             Inl e \<Rightarrow> (Done (error_during_transfer e), db)
           | Inr sender \<Rightarrow> (FoundSender f req sender, db)))"
| "step m (FoundSender f req sender) db =
     (case findById m (find_receiver_fails f) (toAccountId req) db of
        Inl e \<Rightarrow> (Done (error_during_transfer e), db)
      | Inr receiver \<Rightarrow>
          (case sender of
             None \<Rightarrow> (Done sender_not_found, db)
           | Some s \<Rightarrow>
               (case receiver of
                  None \<Rightarrow> (Done receiver_not_found, db)
                | Some r \<Rightarrow>
                    let a = num_of (amount req) in
                    if js_lt (balance s) a
                    then (Done (insufficient_funds (balance s) a), db)
                    else (SavingSender f (s\<lparr>balance := js_sub (balance s) a\<rparr>)
                            (r\<lparr>balance := js_add (balance r) a\<rparr>), db))))"
| "step m (SavingSender f s' r') db =
     (case save (save_sender_fails f) s' db of
        Inl e \<Rightarrow> (Done (error_during_transfer e), db)
      | Inr db1 \<Rightarrow> (SavingReceiver f s' r', db1))"
| "step m (SavingReceiver f s' r') db =
     (case save (save_receiver_fails f) r' db of
        Inl e \<Rightarrow> (Done (error_during_transfer e), db)
      | Inr db2 \<Rightarrow> (Done (transfer_successful (balance s') (balance r')), db2))"
| "step m (Done r) db = (Done r, db)"

text \<open>
  Requests in flight together: the schedule names, operation by operation, the request
  whose pending operation the database performs next.
\<close>

fun run :: "mongoose \<Rightarrow> nat list \<Rightarrow> task list \<Rightarrow> collection \<Rightarrow> task list \<times> collection" where
  "run m [] ts db = (ts, db)"
| "run m (i # sched) ts db =
     (if i < length ts
      then let (t', db') = step m (ts ! i) db in run m sched (ts[i := t']) db'
      else run m sched ts db)"

text \<open>
  The schedule that serves \<open>n\<close> requests one at a time: the four operations of the first,
  then the four of the second, and so on.
\<close>

definition serial :: "nat \<Rightarrow> nat list" where
  "serial n = concat (map (replicate 4) [0..<n])"

section \<open>Ledgers\<close>

text \<open>The exact value of a finite balance, and the sum of the balances of a collection.\<close>

fun value_of :: "jsnum \<Rightarrow> rat" where
  "value_of (Fin q) = q"
| "value_of n = 0"

definition total :: "collection \<Rightarrow> rat" where
  "total db = sum_list (map (\<lambda>a. value_of (balance a)) db)"

text \<open>
  A whole amount: a non-negative integer of at most \<open>2\<^sup>5\<^sup>3\<close>, the range in which every integer
  is a Number and sums and differences that stay in the range are exact.
\<close>

definition whole :: "jsnum \<Rightarrow> bool" where
  "whole n = (case n of Fin q \<Rightarrow> 0 \<le> q \<and> q \<le> 2 ^ 53 \<and> of_int \<lfloor>q\<rfloor> = q | _ \<Rightarrow> False)"

text \<open>
  A ledger of whole amounts: every balance is whole and so is the sum of all balances.
\<close>

definition ledger_ok :: "collection \<Rightarrow> bool" where
  "ledger_ok db = (list_all (\<lambda>a. whole (balance a)) db \<and> total db \<le> 2 ^ 53)"

text \<open>The account with id \<open>k\<close> exists and its stored balance is \<^verbatim>\<open>>= 0\<close>.\<close>

definition nonneg_balance :: "objectId \<Rightarrow> collection \<Rightarrow> bool" where
  "nonneg_balance k db =
     (case lookup k db of Some a \<Rightarrow> js_le (Fin 0) (balance a) | None \<Rightarrow> False)"

text \<open>A request for a whole amount whose two ids cast to two different ObjectIds.\<close>

definition whole_transfer :: "mongoose \<Rightarrow> request \<Rightarrow> bool" where
  "whole_transfer m req =
     (whole (num_of (amount req)) \<and>
      castObjectId m (fromAccountId req) \<noteq> castObjectId m (toAccountId req))"

text \<open>
  What \<open>updateOne k b\<close> does to each document of a collection whose ids are unique.
\<close>

definition set_balance :: "objectId \<Rightarrow> jsnum \<Rightarrow> account \<Rightarrow> account" where
  "set_balance k b a = (if oid a = k then a\<lparr>balance := b\<rparr> else a)"

section \<open>Scenarios\<close>

text \<open>The two documents \<^verbatim>\<open>POST /setup-accounts\<close> inserts, under the ids the database gives them.\<close>

definition setup_accounts :: "objectId \<Rightarrow> objectId \<Rightarrow> collection" where
  "setup_accounts ka kb =
     [\<lparr>oid = ka, name = ''UserA'', balance = Fin 1000\<rparr>,
      \<lparr>oid = kb, name = ''UserB'', balance = Fin 500\<rparr>]"

text \<open>
  \<open>n\<close> requests for the same amount between the same two ids, in alternating directions.
\<close>

fun alternate :: "nat \<Rightarrow> jsval \<Rightarrow> jsval \<Rightarrow> jsval \<Rightarrow> request list" where
  "alternate 0 x y a = []"
| "alternate (Suc n) x y a =
     \<lparr>fromAccountId = x, toAccountId = y, amount = a\<rparr> # alternate n y x a"

text \<open>
  An instance of the library parameters, for running the model on concrete requests: an id
  is a string of 24 hexadecimal digits, read without regard to the case of the digits, as
  the hexadecimal form of an ObjectId is.
\<close>

definition hex_digit :: "char \<Rightarrow> bool" where
  "hex_digit c = (c \<in> set ''0123456789abcdefABCDEF'')"

definition lower_hex :: "char \<Rightarrow> char" where
  "lower_hex c =
     (if c = CHR ''A'' then CHR ''a'' else if c = CHR ''B'' then CHR ''b''
      else if c = CHR ''C'' then CHR ''c'' else if c = CHR ''D'' then CHR ''d''
      else if c = CHR ''E'' then CHR ''e'' else if c = CHR ''F'' then CHR ''f'' else c)"

fun hex24 :: "jsval \<Rightarrow> bool" where
  "hex24 (JStr s) = (length s = 24 \<and> list_all hex_digit s)"
| "hex24 v = False"

fun cast_hex24 :: "jsval \<Rightarrow> objectId option" where
  "cast_hex24 (JStr s) = (if hex24 (JStr s) then Some (map lower_hex s) else None)"
| "cast_hex24 v = None"

definition hex_ids :: mongoose where
  "hex_ids = \<lparr>ObjectId_isValid = hex24, castObjectId = cast_hex24\<rparr>"

definition idA :: objectId where
  "idA = ''aaaaaaaaaaaaaaaaaaaaaaaa''"

definition idB :: objectId where
  "idB = ''bbbbbbbbbbbbbbbbbbbbbbbb''"

definition idC :: objectId where
  "idC = ''cccccccccccccccccccccccc''"

section \<open>Exact arithmetic on whole amounts\<close>

lemma round_even_of_int: "round_even (of_int j) = j"
  by (simp add: round_even_def)

lemma ilog2_of_int:
  assumes "k \<noteq> 0"
  shows "ilog2 (of_int k) = bitlen \<bar>k\<bar> - 1"
proof -
  have n: "0 < \<bar>k\<bar>" using assms by simp
  have "quotient_of (of_int \<bar>k\<bar>) = (\<bar>k\<bar>, 1)"
    by (simp add: of_int_rat quotient_of_Fract)
  then have q: "quotient_of \<bar>of_int k :: rat\<bar> = (\<bar>k\<bar>, 1)"
    by simp
  have b: "2 ^ nat (bitlen \<bar>k\<bar> - 1) \<le> \<bar>k\<bar>"
    using bitlen_bounds [OF n] by simp
  have d: "0 \<le> bitlen \<bar>k\<bar> - 1"
    using n by (auto simp: bitlen_alt_def)
  have "(2::rat) powi (bitlen \<bar>k\<bar> - 1) = of_int (2 ^ nat (bitlen \<bar>k\<bar> - 1))"
    using d by (simp add: power_int_def)
  also have "\<dots> \<le> of_int \<bar>k\<bar>"
    using b by (simp only: of_int_le_iff)
  finally have "(2::rat) powi (bitlen \<bar>k\<bar> - 1) \<le> \<bar>of_int k\<bar>" by simp
  moreover have "bitlen 1 = 1" by (simp add: bitlen_alt_def)
  ultimately show ?thesis
    unfolding ilog2_def q by (simp add: Let_def)
qed

lemma bitlen_le_54:
  assumes "0 < n" "n \<le> 2 ^ 53"
  shows "bitlen n \<le> 54"
proof (rule ccontr)
  assume "\<not> bitlen n \<le> 54"
  then have "54 \<le> nat (bitlen n - 1)" by simp
  then have "(2::int) ^ 54 \<le> 2 ^ nat (bitlen n - 1)"
    by (intro power_increasing) auto
  also have "\<dots> \<le> n" using bitlen_bounds [OF assms(1)] by simp
  finally show False using assms(2) by simp
qed

text \<open>An integer of magnitude at most \<open>2\<^sup>5\<^sup>3\<close> is a Number: rounding leaves it as it is.\<close>

lemma fround_of_int:
  assumes "\<bar>k\<bar> \<le> 2 ^ 53"
  shows "fround (of_int k) = Fin (of_int k)"
proof (cases "k = 0")
  case True
  then show ?thesis by (simp add: fround_def)
next
  case False
  define d where "d = bitlen \<bar>k\<bar> - 1"
  have n: "0 < \<bar>k\<bar>" using False by simp
  have d0: "0 \<le> d" using n by (auto simp: d_def bitlen_alt_def)
  have d53: "d \<le> 53" using bitlen_le_54 [OF n assms] by (simp add: d_def)
  have lo: "2 ^ nat d \<le> \<bar>k\<bar>" using bitlen_bounds [OF n] by (simp add: d_def)
  have e: "max (ilog2 (of_int k)) (- 1022) = d"
    using ilog2_of_int [OF False] d0 by (simp add: d_def)
  obtain j :: int where j: "(of_int k :: rat) = of_int j * 2 powi (d - 52)"
  proof (cases "d \<le> 52")
    case True
    have "(of_int k :: rat) = of_int (k * 2 ^ nat (52 - d)) * 2 powi (d - 52)"
      using True by (simp add: power_int_def field_simps)
    then show ?thesis using that by blast
  next
    case False
    then have d: "d = 53" using d53 by simp
    have "\<bar>k\<bar> = 2 ^ 53" using lo assms by (simp add: d)
    then have "even k"
      by (metis abs_numeral dvd_abs_iff even_numeral even_power zero_less_numeral)
    then obtain i where "k = 2 * i" by (auto elim: evenE)
    then have "(of_int k :: rat) = of_int i * 2 powi (d - 52)"
      by (simp add: d)
    then show ?thesis using that by blast
  qed
  have u: "(2::rat) powi (d - 52) \<noteq> 0" by simp
  have r: "of_int (round_even (of_int k / 2 powi (d - 52))) * 2 powi (d - 52) = (of_int k :: rat)"
    unfolding j using u by (simp add: round_even_of_int)
  have "\<bar>of_int k :: rat\<bar> \<le> 2 ^ 53"
    using assms by (metis of_int_abs of_int_le_iff of_int_numeral of_int_power)
  also have "\<dots> < 2 ^ 1024" by (rule power_strict_increasing) auto
  finally have small: "\<not> 2 powi 1024 \<le> \<bar>of_int k :: rat\<bar>"
    by (simp add: power_int_def)
  have nz: "(of_int k :: rat) \<noteq> 0" using False by simp
  show ?thesis
    unfolding fround_def Let_def e r by (simp only: nz small if_False)
qed

lemma js_add_whole:
  assumes "\<bar>a + b\<bar> \<le> 2 ^ 53"
  shows "js_add (Fin (of_int a)) (Fin (of_int b)) = Fin (of_int (a + b))"
  using fround_of_int [OF assms] by simp

lemma js_sub_whole:
  assumes "\<bar>a - b\<bar> \<le> 2 ^ 53"
  shows "js_sub (Fin (of_int a)) (Fin (of_int b)) = Fin (of_int (a - b))"
  using fround_of_int [OF assms] by (simp add: js_sub_def)

lemma whole_iff: "whole n \<longleftrightarrow> (\<exists>k. n = Fin (of_int k) \<and> 0 \<le> k \<and> k \<le> 2 ^ 53)"
proof
  assume "whole n"
  then obtain q where q: "n = Fin q" "0 \<le> q" "q \<le> 2 ^ 53" "of_int \<lfloor>q\<rfloor> = q"
    by (cases n) (auto simp: whole_def)
  have "0 \<le> \<lfloor>q\<rfloor>" using q(2) by simp
  moreover have "\<lfloor>q\<rfloor> \<le> 2 ^ 53" using q(3) by (simp add: floor_le_iff)
  ultimately show "\<exists>k. n = Fin (of_int k) \<and> 0 \<le> k \<and> k \<le> 2 ^ 53"
    using q(1,4) by metis
next
  assume "\<exists>k. n = Fin (of_int k) \<and> 0 \<le> k \<and> k \<le> 2 ^ 53"
  then obtain k :: int where "n = Fin (of_int k)" "0 \<le> k" "k \<le> 2 ^ 53" by blast
  moreover have "(of_int k :: rat) \<le> 2 ^ 53" if "k \<le> 2 ^ 53"
    using that by (metis of_int_le_iff of_int_numeral of_int_power)
  ultimately show "whole n" by (simp add: whole_def)
qed


lemma js_add_wholes:
  assumes "whole x" "whole y" "value_of x + value_of y \<le> 2 ^ 53"
  shows "js_add x y = Fin (value_of x + value_of y)"
proof -
  obtain a :: int where a: "x = Fin (of_int a)" "0 \<le> a" "a \<le> 2 ^ 53"
    using assms(1) by (auto simp: whole_iff)
  obtain b :: int where b: "y = Fin (of_int b)" "0 \<le> b" "b \<le> 2 ^ 53"
    using assms(2) by (auto simp: whole_iff)
  have "(of_int (a + b) :: rat) \<le> 2 ^ 53" using assms(3) by (simp add: a b)
  then have "a + b \<le> 2 ^ 53"
    by (metis of_int_le_iff of_int_numeral of_int_power)
  then have "js_add (Fin (of_int a)) (Fin (of_int b)) = Fin (of_int (a + b))"
    using a b by (intro js_add_whole) simp
  then show ?thesis unfolding a b by (simp del: js_add.simps)
qed

subsection \<open>The binary exponent, and rounding away from ties\<close>

lemma bitlen_rat_bounds:
  assumes "0 < n"
  shows "(2::rat) powi (bitlen n - 1) \<le> of_int n" and "(of_int n :: rat) < 2 powi bitlen n"
proof -
  have b1: "1 \<le> bitlen n" using assms by (auto simp: bitlen_alt_def)
  have lo: "2 ^ nat (bitlen n - 1) \<le> n" and hi: "n < 2 ^ nat (bitlen n)"
    using bitlen_bounds [OF assms] by simp_all
  have "(2::rat) powi (bitlen n - 1) = of_int (2 ^ nat (bitlen n - 1))"
    using b1 by (simp add: power_int_def)
  also have "\<dots> \<le> of_int n" using lo by (simp only: of_int_le_iff)
  finally show "(2::rat) powi (bitlen n - 1) \<le> of_int n" .
  have "(of_int n :: rat) < of_int (2 ^ nat (bitlen n))"
    using hi by (simp only: of_int_less_iff)
  also have "\<dots> = 2 powi bitlen n"
    using b1 by (simp add: power_int_def)
  finally show "(of_int n :: rat) < 2 powi bitlen n" .
qed

lemma ilog2_bounds:
  assumes "x \<noteq> 0"
  shows "2 powi ilog2 x \<le> \<bar>x\<bar>" and "\<bar>x\<bar> < 2 powi (ilog2 x + 1)"
proof -
  obtain p q where pq: "quotient_of \<bar>x\<bar> = (p, q)" by (cases "quotient_of \<bar>x\<bar>")
  have q0: "0 < q" using quotient_of_denom_pos [OF pq] .
  have x: "\<bar>x\<bar> = of_int p / of_int q" using quotient_of_div [OF pq] .
  have "0 < \<bar>x\<bar>" using assms by simp
  then have p0: "0 < p" using q0 by (simp add: x zero_less_divide_iff)
  define d where "d = bitlen p - bitlen q"
  have Q: "(0::rat) < of_int q" using q0 by simp
  have up: "\<bar>x\<bar> < 2 powi (d + 1)"
  proof -
    have "of_int p < (2::rat) powi bitlen p" by (rule bitlen_rat_bounds [OF p0])
    also have "\<dots> = 2 powi (d + 1) * 2 powi (bitlen q - 1)"
      by (simp add: d_def flip: power_int_add)
    also have "\<dots> \<le> 2 powi (d + 1) * of_int q"
      by (intro mult_left_mono bitlen_rat_bounds [OF q0]) simp
    finally show ?thesis using Q by (simp add: x pos_divide_less_eq)
  qed
  have down: "2 powi (d - 1) < \<bar>x\<bar>"
  proof -
    have "2 powi (d - 1) * of_int q < 2 powi (d - 1) * (2::rat) powi bitlen q"
      by (intro mult_strict_left_mono bitlen_rat_bounds [OF q0]) simp
    also have "\<dots> = 2 powi (bitlen p - 1)"
      by (simp add: d_def flip: power_int_add)
    also have "\<dots> \<le> of_int p" by (rule bitlen_rat_bounds [OF p0])
    finally show ?thesis using Q by (simp add: x pos_less_divide_eq)
  qed
  have e: "ilog2 x = (if 2 powi d \<le> \<bar>x\<bar> then d else d - 1)"
    by (simp add: ilog2_def pq d_def)
  show "2 powi ilog2 x \<le> \<bar>x\<bar>" using down by (simp add: e)
  show "\<bar>x\<bar> < 2 powi (ilog2 x + 1)" using up by (simp add: e)
qed

lemma ilog2_eqI:
  assumes "2 powi e \<le> \<bar>x\<bar>" "\<bar>x\<bar> < 2 powi (e + 1)"
  shows "ilog2 x = e"
proof -
  have "(0::rat) < 2 powi e" by simp
  from this assms(1) have "0 < \<bar>x\<bar>" by (rule less_le_trans)
  then have x0: "x \<noteq> 0" by simp
  note b = ilog2_bounds [OF x0]
  have "\<not> ilog2 x < e"
  proof
    assume "ilog2 x < e"
    then have "(2::rat) powi (ilog2 x + 1) \<le> 2 powi e"
      by (intro power_int_increasing) auto
    with b(2) assms(1) show False by simp
  qed
  moreover have "\<not> e < ilog2 x"
  proof
    assume "e < ilog2 x"
    then have "(2::rat) powi (e + 1) \<le> 2 powi ilog2 x"
      by (intro power_int_increasing) auto
    with b(1) assms(2) show False by simp
  qed
  ultimately show ?thesis by simp
qed

lemma round_even_eqI:
  assumes "\<bar>x - of_int k\<bar> < 1 / 2"
  shows "round_even x = k"
proof (cases "of_int k \<le> x")
  case True
  with assms have "\<lfloor>x\<rfloor> = k" by (intro floor_unique) auto
  with assms True show ?thesis by (simp add: round_even_def)
next
  case False
  with assms have f: "\<lfloor>x\<rfloor> = k - 1" by (intro floor_unique) auto
  have "1 / 2 < x - of_int (k - 1)" using assms False by auto
  then show ?thesis by (simp add: round_even_def f)
qed

text \<open>
  The value of \<open>fround\<close> at a rational that is not half-way between two Numbers, from its
  binary exponent \<open>e\<close> and the nearest multiple \<open>k\<close> of the spacing.
\<close>

lemma fround_eqI:
  assumes "2 powi e \<le> \<bar>x\<bar>" "\<bar>x\<bar> < 2 powi (e + 1)" "- 1022 \<le> e"
    and "\<bar>x / 2 powi (e - 52) - of_int k\<bar> < 1 / 2"
    and "\<bar>of_int k * 2 powi (e - 52)\<bar> < (2::rat) powi 1024"
  shows "fround x = Fin (of_int k * 2 powi (e - 52))"
proof -
  have "(0::rat) < 2 powi e" by simp
  from this assms(1) have "0 < \<bar>x\<bar>" by (rule less_le_trans)
  then have x0: "x \<noteq> 0" by simp
  have e: "max (ilog2 x) (- 1022) = e"
    using ilog2_eqI [OF assms(1,2)] assms(3) by simp
  have r: "round_even (x / 2 powi (e - 52)) = k"
    by (rule round_even_eqI [OF assms(4)])
  have big: "\<not> 2 powi 1024 \<le> \<bar>of_int k * (2::rat) powi (e - 52)\<bar>"
    using assms(5) by (simp only: not_le)
  show ?thesis
    unfolding fround_def Let_def e r by (simp only: x0 big if_False)
qed

section \<open>Validation\<close>

lemma strict_eq_refl: "primitive x \<Longrightarrow> truthy x \<Longrightarrow> strict_eq x x"
  by (cases x) auto

lemma validate_status: "validate m req = Some r \<Longrightarrow> status r = 400"
  by (auto simp: validate_def missing_fields_def bad_amount_def same_account_def
      bad_id_format_def split: if_splits)

lemma not_positive_iff: "truthy v \<Longrightarrow> positive v = (is_number v \<and> \<not> js_le (num_of v) (Fin 0))"
  by (cases v) (auto simp: positive_def js_le_def)

text \<open>The requests that pass all four checks.\<close>

lemma validate_None_iff:
  "validate m req = None \<longleftrightarrow>
     truthy (fromAccountId req) \<and> truthy (toAccountId req) \<and> positive (amount req) \<and>
     \<not> strict_eq (fromAccountId req) (toAccountId req) \<and>
     ObjectId_isValid m (fromAccountId req) \<and> ObjectId_isValid m (toAccountId req)"
proof (cases "truthy (amount req)")
  case True
  then show ?thesis
    by (auto simp: validate_def not_positive_iff)
next
  case False
  then have "\<not> positive (amount req)"
    by (cases "amount req") (auto simp: positive_def)
  with False show ?thesis by (auto simp: validate_def)
qed

lemma validate_None_amount:
  "validate m req = None \<Longrightarrow> \<exists>n. amount req = JNum n \<and> js_lt (Fin 0) n"
  by (cases "amount req") (auto simp: validate_None_iff positive_def)

lemma transfer_invalid:
  "validate m req = Some r \<Longrightarrow> transfer m f req db = \<lparr>reply = r, db_after = db, ops = []\<rparr>"
  by (simp add: transfer_def)

section \<open>The store operations\<close>

lemma updateOne_lookup:
  "updateOne k b db = Some db' \<Longrightarrow>
     lookup j db' = (if j = k then map_option (\<lambda>a. a\<lparr>balance := b\<rparr>) (lookup k db) else lookup j db)"
proof (induction db arbitrary: db')
  case Nil
  then show ?case by simp
next
  case (Cons a as)
  show ?case
  proof (cases "oid a = k")
    case True
    with Cons.prems show ?thesis by (auto simp: lookup_def)
  next
    case False
    with Cons.prems obtain as' where as': "updateOne k b as = Some as'" and db': "db' = a # as'"
      by auto
    from Cons.IH [OF as'] False show ?thesis
      by (auto simp: lookup_def db')
  qed
qed

lemma updateOne_Some_iff: "(\<exists>db'. updateOne k b db = Some db') \<longleftrightarrow> lookup k db \<noteq> None"
  by (induction db) (auto simp: lookup_def)


lemma updateOne_same: "lookup k db = Some a \<Longrightarrow> updateOne k (balance a) db = Some db"
  by (induction db) (auto simp: lookup_def split: if_splits)

lemma load_simps [simp]:
  "oid (load a) = oid a" "name (load a) = name a" "balance (load a) = balance a"
  "loaded_balance (load a) = balance a"
  by (simp_all add: load_def)

text \<open>What a save that succeeded has done.\<close>

lemma save_Inr:
  assumes "save fl d db = Inr db'"
  shows "schema_valid d" and "\<not> fl"
    and "balance d = loaded_balance d \<and> db' = db \<and> lookup (oid d) db \<noteq> None \<or>
         balance d \<noteq> loaded_balance d \<and> updateOne (oid d) (balance d) db = Some db'"
  using assms by (auto simp: save_def split: if_splits option.splits)

lemma save_lookup:
  assumes "save fl d db = Inr db'"
  shows "lookup j db' =
     (if j = oid d \<and> balance d \<noteq> loaded_balance d
      then map_option (\<lambda>a. a\<lparr>balance := balance d\<rparr>) (lookup j db) else lookup j db)"
  using save_Inr(3) [OF assms] by (auto simp: updateOne_lookup)


text \<open>
  A document saved into the collection it was loaded from: whether its balance is modified
  or not, the collection afterwards is the one with that balance set.
\<close>

lemma save_loaded:
  assumes "save fl ((load a)\<lparr>balance := b\<rparr>) db = Inr db'" "lookup (oid a) db = Some a"
  shows "updateOne (oid a) b db = Some db'"
  using save_Inr(3) [OF assms(1)] updateOne_same [OF assms(2)] by auto

lemma save_nonneg:
  assumes "save fl d db = Inr db'" "nonneg_balance k db"
  shows "nonneg_balance k db'"
  using assms(2) save_Inr(1) [OF assms(1)]
  by (auto simp: nonneg_balance_def save_lookup [OF assms(1)] schema_valid_def
      split: option.splits if_splits)

section \<open>The paths of the handler\<close>

lemma status_simps [simp]:
  "status missing_fields = 400" "status bad_amount = 400" "status same_account = 400"
  "status bad_id_format = 400" "status sender_not_found = 404"
  "status receiver_not_found = 404" "status (insufficient_funds b a) = 400"
  "status (transfer_successful x y) = 200" "status (error_during_transfer e) = 500"
  by (simp_all add: missing_fields_def bad_amount_def same_account_def bad_id_format_def
      sender_not_found_def receiver_not_found_def insufficient_funds_def
      transfer_successful_def error_during_transfer_def)

lemma findById_Inr:
  "findById m fl v db = Inr x \<longleftrightarrow>
     (\<exists>k. castObjectId m v = Some k \<and> \<not> fl \<and> x = map_option load (lookup k db))"
  by (auto simp: findById_def split: option.splits)

lemma lookup_oid: "lookup k db = Some a \<Longrightarrow> oid a = k"
  by (induction db) (auto simp: lookup_def split: if_splits)

lemma transfer_200:
  assumes "status (reply (transfer m f req db)) = 200"
  obtains ks kr s r db1 where
    "validate m req = None"
    "castObjectId m (fromAccountId req) = Some ks" "castObjectId m (toAccountId req) = Some kr"
    "lookup ks db = Some s" "lookup kr db = Some r"
    "\<not> js_lt (balance s) (num_of (amount req))"
    "save (save_sender_fails f)
       ((load s)\<lparr>balance := js_sub (balance s) (num_of (amount req))\<rparr>) db = Inr db1"
    "save (save_receiver_fails f)
       ((load r)\<lparr>balance := js_add (balance r) (num_of (amount req))\<rparr>) db1
       = Inr (db_after (transfer m f req db))"
    "reply (transfer m f req db) =
       transfer_successful (js_sub (balance s) (num_of (amount req)))
         (js_add (balance r) (num_of (amount req)))"
    "ops (transfer m f req db) =
       [FindById (fromAccountId req), FindById (toAccountId req),
        Save ks (js_sub (balance s) (num_of (amount req))),
        Save kr (js_add (balance r) (num_of (amount req)))]"
proof (cases "validate m req")
  case (Some r)
  with assms validate_status [OF Some] show ?thesis by (simp add: transfer_invalid)
next
  case None
  show ?thesis
    using assms None that
    by (auto simp: transfer_def Let_def findById_Inr lookup_oid
        split: sum.splits option.splits if_splits)
qed

lemma transfer_valid_found:
  assumes "validate m req = None"
    and "castObjectId m (fromAccountId req) = Some ks" "castObjectId m (toAccountId req) = Some kr"
    and "\<not> find_sender_fails f" "\<not> find_receiver_fails f"
  shows "transfer m f req db =
     (let a = num_of (amount req);
          find2 = [FindById (fromAccountId req), FindById (toAccountId req)] in
      case lookup ks db of
        None \<Rightarrow> \<lparr>reply = sender_not_found, db_after = db, ops = find2\<rparr>
      | Some s \<Rightarrow>
      case lookup kr db of
        None \<Rightarrow> \<lparr>reply = receiver_not_found, db_after = db, ops = find2\<rparr>
      | Some r \<Rightarrow>
      if js_lt (balance s) a
      then \<lparr>reply = insufficient_funds (balance s) a, db_after = db, ops = find2\<rparr>
      else
        let s' = (load s)\<lparr>balance := js_sub (balance s) a\<rparr>;
            r' = (load r)\<lparr>balance := js_add (balance r) a\<rparr>;
            save1 = find2 @ [Save ks (balance s')];
            save2 = save1 @ [Save kr (balance r')]
        in
        case save (save_sender_fails f) s' db of
          Inl e \<Rightarrow> \<lparr>reply = error_during_transfer e, db_after = db, ops = save1\<rparr>
        | Inr db1 \<Rightarrow>
        case save (save_receiver_fails f) r' db1 of
          Inl e \<Rightarrow> \<lparr>reply = error_during_transfer e, db_after = db1, ops = save2\<rparr>
        | Inr db2 \<Rightarrow>
            \<lparr>reply = transfer_successful (balance s') (balance r'),
             db_after = db2, ops = save2\<rparr>)"
  using assms
  by (auto simp: transfer_def Let_def findById_def lookup_oid split: option.splits sum.splits)

lemma no_faults_simps [simp]:
  "\<not> find_sender_fails no_faults" "\<not> find_receiver_fails no_faults"
  "\<not> save_sender_fails no_faults" "\<not> save_receiver_fails no_faults"
  by (simp_all add: no_faults_def)

section \<open>Requests served one at a time\<close>

lemma run_Done [simp]: "run m sched [Done r] db = ([Done r], db)"
  by (induction sched) auto

lemma run_alone_is_transfer:
  "run m [0, 0, 0, 0] [Start f req] db =
     ([Done (reply (transfer m f req db))], db_after (transfer m f req db))"
  by (auto simp: transfer_def Let_def split: option.splits sum.splits)

text \<open>
  Under the serial schedule the requests in flight are served as \<open>transfers\<close> serves a list.
\<close>

lemma run_append:
  "run m (s1 @ s2) ts db = (case run m s1 ts db of (ts', db') \<Rightarrow> run m s2 ts' db')"
  by (induction s1 arbitrary: ts db) (auto simp: Let_def split: prod.splits)

lemma run_four:
  assumes "k < length ts" "ts ! k = Start f req"
  shows "run m (replicate 4 k) ts db =
     (ts[k := Done (reply (transfer m f req db))], db_after (transfer m f req db))"
proof -
  have r: "replicate 4 k = [k, k, k, k]" by (simp add: numeral_eq_Suc)
  show ?thesis
    unfolding r using assms
    by (auto simp: transfer_def Let_def split: option.splits sum.splits)
qed

lemma run_serial_from:
  "run m (concat (map (replicate 4) [length pre..<length pre + length xs]))
       (pre @ map (\<lambda>(f, req). Start f req) xs) db =
     (pre @ map Done (fst (transfers m xs db)), snd (transfers m xs db))"
proof (induction xs arbitrary: pre db)
  case Nil
  show ?case by simp
next
  case (Cons x xs)
  obtain f req where x: "x = (f, req)" by (cases x)
  let ?ts = "pre @ map (\<lambda>(f, req). Start f req) (x # xs)"
  let ?out = "transfer m f req db"
  have k: "length pre < length ?ts" "?ts ! length pre = Start f req"
    by (simp_all add: x nth_append)
  have upd: "?ts[length pre := Done (reply ?out)] =
      (pre @ [Done (reply ?out)]) @ map (\<lambda>(f, req). Start f req) xs"
    by (simp add: x list_update_append)
  have "[length pre..<length pre + length (x # xs)] =
      length pre # [Suc (length pre)..<Suc (length pre) + length xs]"
    by (subst upt_conv_Cons) simp_all
  then have sched: "concat (map (replicate 4) [length pre..<length pre + length (x # xs)]) =
      replicate 4 (length pre) @
      concat (map (replicate 4)
        [length (pre @ [Done (reply ?out)])..<length (pre @ [Done (reply ?out)]) + length xs])"
    by (simp only: list.map concat.simps length_append_singleton)
  show ?case
    unfolding sched run_append run_four [OF k] upd prod.case
      Cons.IH [of "pre @ [Done (reply ?out)]" "db_after ?out"]
    by (simp add: x Let_def split: prod.splits)
qed

lemma run_serial:
  "run m (serial (length xs)) (map (\<lambda>(f, req). Start f req) xs) db =
     (map Done (fst (transfers m xs db)), snd (transfers m xs db))"
  using run_serial_from [of m "[]" xs db] by (simp add: serial_def)

section \<open>Sums of balances\<close>

lemma total_Cons [simp]: "total (a # as) = value_of (balance a) + total as"
  by (simp add: total_def)

lemma total_Nil [simp]: "total [] = 0"
  by (simp add: total_def)

lemma updateOne_total:
  "updateOne k b db = Some db' \<Longrightarrow> lookup k db = Some a \<Longrightarrow>
     total db' = total db - value_of (balance a) + value_of b"
proof (induction db arbitrary: db')
  case Nil
  then show ?case by simp
next
  case (Cons c cs)
  show ?case
  proof (cases "oid c = k")
    case True
    with Cons.prems show ?thesis by (auto simp: lookup_def)
  next
    case False
    with Cons.prems obtain cs' where cs': "updateOne k b cs = Some cs'" and db': "db' = c # cs'"
      by auto
    have "lookup k cs = Some a" using Cons.prems(2) False by (simp add: lookup_def)
    from Cons.IH [OF cs' this] show ?thesis by (simp add: db')
  qed
qed

lemma whole_value: "whole n \<Longrightarrow> 0 \<le> value_of n \<and> n = Fin (value_of n)"
  by (cases n) (auto simp: whole_def)

lemma lookup_whole:
  "list_all (\<lambda>a. whole (balance a)) db \<Longrightarrow> lookup k db = Some a \<Longrightarrow> whole (balance a)"
  by (induction db) (auto simp: lookup_def split: if_splits)

lemma total_nonneg: "list_all (\<lambda>a. whole (balance a)) db \<Longrightarrow> 0 \<le> total db"
  by (induction db) (auto dest: whole_value)

lemma lookup_le_total:
  "list_all (\<lambda>a. whole (balance a)) db \<Longrightarrow> lookup k db = Some a \<Longrightarrow>
     value_of (balance a) \<le> total db"
proof (induction db)
  case Nil
  then show ?case by (simp add: lookup_def)
next
  case (Cons c cs)
  then show ?case
    using total_nonneg [of cs] whole_value [of "balance c"]
    by (auto simp: lookup_def split: if_splits)
qed

lemma two_le_total:
  assumes "list_all (\<lambda>a. whole (balance a)) db" "lookup ks db = Some s" "lookup kr db = Some r"
    and "ks \<noteq> kr"
  shows "value_of (balance s) + value_of (balance r) \<le> total db"
  using assms
proof (induction db)
  case Nil
  then show ?case by (simp add: lookup_def)
next
  case (Cons c cs)
  have all: "list_all (\<lambda>a. whole (balance a)) cs" and c0: "0 \<le> value_of (balance c)"
    using Cons.prems(1) whole_value [of "balance c"] by auto
  consider "oid c = ks" | "oid c = kr" | "oid c \<noteq> ks" "oid c \<noteq> kr" by blast
  then show ?case
  proof cases
    case 1
    then have "s = c" "lookup kr cs = Some r"
      using Cons.prems(2,3,4) by (auto simp: lookup_def)
    with lookup_le_total [OF all, of kr r] show ?thesis by simp
  next
    case 2
    then have "r = c" "lookup ks cs = Some s"
      using Cons.prems(2,3,4) by (auto simp: lookup_def)
    with lookup_le_total [OF all, of ks s] show ?thesis by simp
  next
    case 3
    then have "lookup ks cs = Some s" "lookup kr cs = Some r"
      using Cons.prems(2,3) by (auto simp: lookup_def)
    from Cons.IH [OF all this Cons.prems(4)] c0 show ?thesis by simp
  qed
qed

lemma updateOne_whole:
  "updateOne k b db = Some db' \<Longrightarrow> list_all (\<lambda>a. whole (balance a)) db \<Longrightarrow> whole b \<Longrightarrow>
     list_all (\<lambda>a. whole (balance a)) db'"
  by (induction db arbitrary: db') (auto split: if_splits)

text \<open>
  A transfer of a whole amount between two different accounts of a ledger of whole
  amounts, answered 200: both balances are exact, the sum is kept, and the ledger stays one
  of whole amounts.
\<close>

lemma transfer_whole_200:
  assumes ok: "ledger_ok db"
    and wa: "whole (num_of (amount req))"
    and diff: "castObjectId m (fromAccountId req) \<noteq> castObjectId m (toAccountId req)"
    and st: "status (reply (transfer m f req db)) = 200"
  obtains ks kr s r where
    "castObjectId m (fromAccountId req) = Some ks" "castObjectId m (toAccountId req) = Some kr"
    "lookup ks db = Some s" "lookup kr db = Some r"
    "value_of (num_of (amount req)) \<le> value_of (balance s)"
    "lookup ks (db_after (transfer m f req db)) =
       Some (s\<lparr>balance := Fin (value_of (balance s) - value_of (num_of (amount req)))\<rparr>)"
    "lookup kr (db_after (transfer m f req db)) =
       Some (r\<lparr>balance := Fin (value_of (balance r) + value_of (num_of (amount req)))\<rparr>)"
    "total (db_after (transfer m f req db)) = total db"
    "ledger_ok (db_after (transfer m f req db))"
proof -
  let ?a = "num_of (amount req)"
  let ?db2 = "db_after (transfer m f req db)"
  from st obtain ks kr s r db1 where
    ks: "castObjectId m (fromAccountId req) = Some ks" and
    kr: "castObjectId m (toAccountId req) = Some kr" and
    s: "lookup ks db = Some s" and r: "lookup kr db = Some r" and
    enough: "\<not> js_lt (balance s) ?a" and
    s1: "save (save_sender_fails f) ((load s)\<lparr>balance := js_sub (balance s) ?a\<rparr>) db = Inr db1" and
    s2: "save (save_receiver_fails f) ((load r)\<lparr>balance := js_add (balance r) ?a\<rparr>) db1 = Inr ?db2"
    by (rule transfer_200)
  have ne: "ks \<noteq> kr" using diff ks kr by simp
  have all: "list_all (\<lambda>a. whole (balance a)) db" and tot: "total db \<le> 2 ^ 53"
    using ok by (simp_all add: ledger_ok_def)
  obtain bs :: int where bs: "balance s = Fin (of_int bs)" "0 \<le> bs" "bs \<le> 2 ^ 53"
    using lookup_whole [OF all s] by (auto simp: whole_iff)
  obtain br :: int where br: "balance r = Fin (of_int br)" "0 \<le> br" "br \<le> 2 ^ 53"
    using lookup_whole [OF all r] by (auto simp: whole_iff)
  obtain k :: int where k: "?a = Fin (of_int k)" "0 \<le> k" "k \<le> 2 ^ 53"
    using wa by (auto simp: whole_iff)
  have kbs: "k \<le> bs" using enough by (simp add: bs k)
  have "(of_int (bs + br) :: rat) \<le> 2 ^ 53"
    using two_le_total [OF all s r ne] tot by (simp add: bs br)
  then have sum: "bs + br \<le> 2 ^ 53"
    by (metis of_int_le_iff of_int_numeral of_int_power)
  have sub: "js_sub (balance s) ?a = Fin (of_int (bs - k))"
    unfolding bs k using bs(2,3) k(2) kbs by (intro js_sub_whole) simp
  have add: "js_add (balance r) ?a = Fin (of_int (br + k))"
    unfolding br k using br(2) k(2) kbs sum by (intro js_add_whole) simp
  have os: "oid s = ks" and or: "oid r = kr"
    using lookup_oid [OF s] lookup_oid [OF r] by simp_all
  have u1: "updateOne ks (Fin (of_int (bs - k))) db = Some db1"
    using save_loaded [OF s1] s by (simp add: sub os)
  have r1: "lookup kr db1 = Some r"
    using updateOne_lookup [OF u1, of kr] ne r by simp
  have u2: "updateOne kr (Fin (of_int (br + k))) db1 = Some ?db2"
    using save_loaded [OF s2] r1 by (simp add: add or)
  have l1: "lookup ks db1 = Some (s\<lparr>balance := Fin (of_int (bs - k))\<rparr>)"
    using updateOne_lookup [OF u1, of ks] s by simp
  have t1: "total db1 = total db - of_int bs + of_int (bs - k)"
    using updateOne_total [OF u1 s] by (simp add: bs)
  have t2: "total ?db2 = total db1 - of_int br + of_int (br + k)"
    using updateOne_total [OF u2 r1] by (simp add: br)
  have t: "total ?db2 = total db" using t1 t2 by simp
  have w1: "whole (Fin (of_int (bs - k)))"
    unfolding whole_iff using bs k kbs by (intro exI [of _ "bs - k"]) simp
  have w2: "whole (Fin (of_int (br + k)))"
    unfolding whole_iff using br k kbs sum by (intro exI [of _ "br + k"]) simp
  have "list_all (\<lambda>a. whole (balance a)) ?db2"
    using updateOne_whole [OF u2 updateOne_whole [OF u1 all w1] w2] .
  then have ok2: "ledger_ok ?db2" using t tot by (simp add: ledger_ok_def)
  have "lookup ks ?db2 = Some (s\<lparr>balance := Fin (of_int bs - of_int k)\<rparr>)"
    using updateOne_lookup [OF u2, of ks] ne l1 by simp
  moreover have "lookup kr ?db2 = Some (r\<lparr>balance := Fin (of_int br + of_int k)\<rparr>)"
    using updateOne_lookup [OF u2, of kr] r1 by simp
  ultimately show ?thesis
    using that [OF ks kr s r _ _ _ t ok2] kbs by (simp add: bs br k)
qed

section \<open>Collections with unique ids\<close>

lemma set_balance_simps [simp]:
  "oid (set_balance k b a) = oid a" "name (set_balance k b a) = name a"
  by (simp_all add: set_balance_def)

lemma lookup_map:
  "(\<And>a. oid (g a) = oid a) \<Longrightarrow> lookup k (map g db) = map_option g (lookup k db)"
  by (induction db) (auto simp: lookup_def)

lemma lookup_unique:
  "distinct (map oid db) \<Longrightarrow> lookup k db = Some s \<Longrightarrow> a \<in> set db \<Longrightarrow> oid a = k \<Longrightarrow> a = s"
  by (induction db) (auto simp: lookup_def split: if_splits)

lemma updateOne_map:
  "distinct (map oid db) \<Longrightarrow> lookup k db \<noteq> None \<Longrightarrow>
     updateOne k b db = Some (map (set_balance k b) db)"
proof (induction db)
  case Nil
  then show ?case by (simp add: lookup_def)
next
  case (Cons a as)
  show ?case
  proof (cases "oid a = k")
    case True
    then have "\<forall>c\<in>set as. oid c \<noteq> k" using Cons.prems(1) by (auto simp: image_iff)
    then have "map (set_balance k b) as = as"
      by (intro map_idI) (simp add: set_balance_def)
    moreover have "set_balance k b a = a\<lparr>balance := b\<rparr>"
      using True by (simp add: set_balance_def)
    ultimately show ?thesis using True by simp
  next
    case False
    then have "lookup k as \<noteq> None" using Cons.prems(2) by (simp add: lookup_def)
    moreover have "set_balance k b a = a"
      using False by (simp add: set_balance_def)
    ultimately show ?thesis using Cons False by simp
  qed
qed

lemma map_set_balance_same:
  assumes "distinct (map oid db)" "lookup k db = Some a"
  shows "map (set_balance k (balance a)) db = db"
proof (rule map_idI)
  fix c assume "c \<in> set db"
  then show "set_balance k (balance a) c = c"
    using lookup_unique [OF assms, of c] by (auto simp: set_balance_def)
qed

lemma save_map:
  assumes "schema_valid d" "distinct (map oid db)" "lookup (oid d) db = Some a"
    and "loaded_balance d = balance a"
  shows "save False d db = Inr (map (set_balance (oid d) (balance d)) db)"
proof (cases "balance d = loaded_balance d")
  case True
  then show ?thesis
    using assms map_set_balance_same [OF assms(2,3)] by (simp add: save_def)
next
  case False
  then show ?thesis
    using assms by (simp add: save_def updateOne_map)
qed

text \<open>A transfer on which nothing fails, in a collection with unique ids.\<close>

lemma transfer_succeeds:
  assumes v: "validate m req = None"
    and c: "castObjectId m (fromAccountId req) = Some ks" "castObjectId m (toAccountId req) = Some kr"
    and ne: "ks \<noteq> kr"
    and d: "distinct (map oid db)"
    and l: "lookup ks db = Some s" "lookup kr db = Some r"
    and enough: "\<not> js_lt (balance s) (num_of (amount req))"
    and n: "name s \<noteq> []" "name r \<noteq> []"
    and b: "js_sub (balance s) (num_of (amount req)) = b1" "js_add (balance r) (num_of (amount req)) = b2"
    and pos: "js_le (Fin 0) b1" "js_le (Fin 0) b2"
  shows "transfer m no_faults req db =
     \<lparr>reply = transfer_successful b1 b2,
      db_after = map (set_balance kr b2) (map (set_balance ks b1) db),
      ops = [FindById (fromAccountId req), FindById (toAccountId req), Save ks b1, Save kr b2]\<rparr>"
proof -
  let ?db1 = "map (set_balance ks b1) db"
  have os: "oid s = ks" and or: "oid r = kr"
    using lookup_oid [OF l(1)] lookup_oid [OF l(2)] by simp_all
  have s1: "save False ((load s)\<lparr>balance := b1\<rparr>) db = Inr ?db1"
    using save_map [of "(load s)\<lparr>balance := b1\<rparr>" db s] d l(1) n(1) pos(1)
    by (simp add: schema_valid_def os)
  have d1: "distinct (map oid ?db1)" using d by (simp add: comp_def)
  have l1: "lookup kr ?db1 = Some r"
    using l(2) ne or by (simp add: lookup_map set_balance_def)
  have s2: "save False ((load r)\<lparr>balance := b2\<rparr>) ?db1 = Inr (map (set_balance kr b2) ?db1)"
    using save_map [of "(load r)\<lparr>balance := b2\<rparr>" ?db1 r] d1 l1 n(2) pos(2)
    by (simp add: schema_valid_def or)
  show ?thesis
    unfolding transfer_valid_found [OF v c no_faults_simps(1,2)]
    using enough by (simp add: l Let_def b s1 s2)
qed

section \<open>The sample collection\<close>

lemma sample_ids:
  "idA \<noteq> idB" "idB \<noteq> idA" "idA \<noteq> idC" "idB \<noteq> idC" "idC \<noteq> idA" "idC \<noteq> idB"
  by (simp_all add: idA_def idB_def idC_def)

lemma hex_ids_valid:
  "ObjectId_isValid hex_ids (JStr idA)" "ObjectId_isValid hex_ids (JStr idB)"
  "ObjectId_isValid hex_ids (JStr idC)"
  by (simp_all add: hex_ids_def idA_def idB_def idC_def hex_digit_def)

lemma hex_ids_cast:
  "castObjectId hex_ids (JStr idA) = Some idA" "castObjectId hex_ids (JStr idB) = Some idB"
  "castObjectId hex_ids (JStr idC) = Some idC"
  by (simp_all add: hex_ids_def idA_def idB_def idC_def hex_digit_def lower_hex_def)

lemma truthy_ids: "truthy (JStr idA)" "truthy (JStr idB)" "truthy (JStr idC)"
  by (simp_all add: idA_def idB_def idC_def)

lemma lookup_setup:
  "lookup idA (setup_accounts idA idB) = Some \<lparr>oid = idA, name = ''UserA'', balance = Fin 1000\<rparr>"
  "lookup idB (setup_accounts idA idB) = Some \<lparr>oid = idB, name = ''UserB'', balance = Fin 500\<rparr>"
  "lookup idC (setup_accounts idA idB) = None"
  using sample_ids by (simp_all add: lookup_def setup_accounts_def)

lemma validate_sample:
  assumes "positive a" "x \<in> {idA, idB, idC}" "y \<in> {idA, idB, idC}" "x \<noteq> y"
  shows "validate hex_ids \<lparr>fromAccountId = JStr x, toAccountId = JStr y, amount = a\<rparr> = None"
  using assms hex_ids_valid truthy_ids by (auto simp: validate_None_iff)

lemma transfer_sample_300:
  "transfer hex_ids no_faults
      \<lparr>fromAccountId = JStr idA, toAccountId = JStr idB, amount = JNum (Fin 300)\<rparr>
      (setup_accounts idA idB)
   = \<lparr>reply = transfer_successful (Fin 700) (Fin 800),
      db_after = [\<lparr>oid = idA, name = ''UserA'', balance = Fin 700\<rparr>,
                  \<lparr>oid = idB, name = ''UserB'', balance = Fin 800\<rparr>],
      ops = [FindById (JStr idA), FindById (JStr idB), Save idA (Fin 700), Save idB (Fin 800)]\<rparr>"
proof -
  let ?req = "\<lparr>fromAccountId = JStr idA, toAccountId = JStr idB, amount = JNum (Fin 300)\<rparr>"
  have v: "validate hex_ids ?req = None"
    using sample_ids by (intro validate_sample) (auto simp: positive_def)
  have c: "castObjectId hex_ids (fromAccountId ?req) = Some idA"
    "castObjectId hex_ids (toAccountId ?req) = Some idB"
    by (simp_all add: hex_ids_cast)
  show ?thesis
    unfolding transfer_valid_found [OF v c no_faults_simps(1,2)] lookup_setup
    using sample_ids
    by (simp add: Let_def save_def schema_valid_def js_le_def setup_accounts_def load_def
        js_sub_whole [of 1000 300, simplified] js_add_whole [of 500 300, simplified])
qed

lemma positive_Fin [simp]: "positive (JNum (Fin q)) \<longleftrightarrow> 0 < q"
  by (simp add: positive_def)

lemma validate_AB [simp]:
  "positive a \<Longrightarrow>
   validate hex_ids \<lparr>fromAccountId = JStr idA, toAccountId = JStr idB, amount = a\<rparr> = None"
  "positive a \<Longrightarrow>
   validate hex_ids \<lparr>fromAccountId = JStr idB, toAccountId = JStr idA, amount = a\<rparr> = None"
  using sample_ids by (simp_all add: validate_sample)

lemma findById_sample [simp]:
  "findById hex_ids fl (JStr idA) db =
     (if fl then Inl StoreError else Inr (map_option load (lookup idA db)))"
  "findById hex_ids fl (JStr idB) db =
     (if fl then Inl StoreError else Inr (map_option load (lookup idB db)))"
  by (simp_all add: findById_def hex_ids_cast)

lemma lookup_two [simp]:
  "lookup k [\<lparr>oid = idA, name = n, balance = b\<rparr>, \<lparr>oid = idB, name = n', balance = b'\<rparr>] =
     (if k = idA then Some \<lparr>oid = idA, name = n, balance = b\<rparr>
      else if k = idB then Some \<lparr>oid = idB, name = n', balance = b'\<rparr> else None)"
  by (auto simp: lookup_def)

lemma load_record [simp]:
  "load \<lparr>oid = k, name = n, balance = b\<rparr> = \<lparr>oid = k, name = n, balance = b, loaded_balance = b\<rparr>"
  by (simp add: load_def)

lemma save_two [simp]:
  "save fl \<lparr>oid = idA, name = n, balance = c, loaded_balance = l\<rparr>
      [\<lparr>oid = idA, name = n1, balance = b\<rparr>, \<lparr>oid = idB, name = n2, balance = b'\<rparr>] =
     (if n = [] \<or> \<not> js_le (Fin 0) c then Inl ValidationError
      else if fl then Inl StoreError
      else if c = l
      then Inr [\<lparr>oid = idA, name = n1, balance = b\<rparr>, \<lparr>oid = idB, name = n2, balance = b'\<rparr>]
      else Inr [\<lparr>oid = idA, name = n1, balance = c\<rparr>, \<lparr>oid = idB, name = n2, balance = b'\<rparr>])"
  "save fl \<lparr>oid = idB, name = n, balance = c, loaded_balance = l\<rparr>
      [\<lparr>oid = idA, name = n1, balance = b\<rparr>, \<lparr>oid = idB, name = n2, balance = b'\<rparr>] =
     (if n = [] \<or> \<not> js_le (Fin 0) c then Inl ValidationError
      else if fl then Inl StoreError
      else if c = l
      then Inr [\<lparr>oid = idA, name = n1, balance = b\<rparr>, \<lparr>oid = idB, name = n2, balance = b'\<rparr>]
      else Inr [\<lparr>oid = idA, name = n1, balance = b\<rparr>, \<lparr>oid = idB, name = n2, balance = c\<rparr>])"
  using sample_ids by (simp_all add: save_def schema_valid_def lookup_def)

lemma js_le_Fin [simp]: "js_le (Fin a) (Fin b) \<longleftrightarrow> a \<le> b"
  by (auto simp: js_le_def)

lemmas sample_arith =
  js_sub_whole [of 1000 300, simplified] js_add_whole [of 500 300, simplified]
  js_sub_whole [of 1000 100, simplified] js_add_whole [of 500 100, simplified]
  js_sub_whole [of 500 100, simplified] js_add_whole [of 1000 100, simplified]
  js_sub_whole [of 500 200, simplified] js_add_whole [of 1000 200, simplified]

section \<open>Requests that are refused\<close>

text \<open>
  \<^bold>\<open>C8\<close> (missing account). A request that passes validation, whose two ids cast to
  ObjectIds \<open>ks\<close> and \<open>kr\<close> and whose two reads the store answers, is answered 404 as soon as
  the collection has no document for \<open>ks\<close> or none for \<open>kr\<close>. The message names the side:
  "Sender account not found." when the sender is missing (also when both are), "Receiver
  account not found." when only the receiver is. The collection is returned as it was, and
  the only store calls are the two reads.
\<close>

theorem missing_account_not_found:
  assumes "validate m req = None"
    and "castObjectId m (fromAccountId req) = Some ks" "castObjectId m (toAccountId req) = Some kr"
    and "\<not> find_sender_fails f" "\<not> find_receiver_fails f"
    and "lookup ks db = None \<or> lookup kr db = None"
  shows "transfer m f req db =
           \<lparr>reply = (if lookup ks db = None then sender_not_found else receiver_not_found),
            db_after = db,
            ops = [FindById (fromAccountId req), FindById (toAccountId req)]\<rparr> \<and>
         status sender_not_found = 404 \<and> message sender_not_found = ''Sender account not found.'' \<and>
         status receiver_not_found = 404 \<and>
         message receiver_not_found = ''Receiver account not found.''"
  using assms(6) unfolding transfer_valid_found [OF assms(1-5)]
  by (auto simp: sender_not_found_def receiver_not_found_def split: option.splits)

theorem missing_account_not_found_witness:
  "validate hex_ids \<lparr>fromAccountId = JStr idA, toAccountId = JStr idC, amount = JNum (Fin 50)\<rparr> = None \<and>
   lookup idC (setup_accounts idA idB) = None \<and>
   transfer hex_ids no_faults
       \<lparr>fromAccountId = JStr idA, toAccountId = JStr idC, amount = JNum (Fin 50)\<rparr>
       (setup_accounts idA idB)
     = \<lparr>reply = receiver_not_found, db_after = setup_accounts idA idB,
        ops = [FindById (JStr idA), FindById (JStr idC)]\<rparr> \<and>
   status receiver_not_found = 404"
proof -
  let ?req = "\<lparr>fromAccountId = JStr idA, toAccountId = JStr idC, amount = JNum (Fin 50)\<rparr>"
  have v: "validate hex_ids ?req = None"
    using sample_ids by (intro validate_sample) (auto simp: positive_def)
  have miss: "lookup idA (setup_accounts idA idB) = None \<or> lookup idC (setup_accounts idA idB) = None"
    by (simp add: lookup_setup)
  from missing_account_not_found [of hex_ids ?req idA idC no_faults "setup_accounts idA idB"]
    v miss
  show ?thesis by (simp add: hex_ids_cast lookup_setup)
qed

text \<open>
  \<^bold>\<open>C6\<close> (insufficient funds leaves the state untouched). When the sender's id casts to
  \<open>ks\<close>, the collection holds a document \<open>s\<close> for it and \<^verbatim>\<open>s.balance < amount\<close>, the handler
  returns the collection as it was and saves nothing, whatever else holds of the request and
  the environment. When moreover the request passes validation, both reads are answered and
  the receiver exists, the answer is 400 "Insufficient funds." and carries the sender's
  current balance and the requested amount.
\<close>

theorem insufficient_funds_untouched:
  assumes "castObjectId m (fromAccountId req) = Some ks" "lookup ks db = Some s"
    and "js_lt (balance s) (num_of (amount req))"
  shows "db_after (transfer m f req db) = db \<and>
         (\<forall>k b. Save k b \<notin> set (ops (transfer m f req db))) \<and>
         (validate m req = None \<and> \<not> find_sender_fails f \<and> \<not> find_receiver_fails f \<and>
          (\<exists>kr r. castObjectId m (toAccountId req) = Some kr \<and> lookup kr db = Some r) \<longrightarrow>
          reply (transfer m f req db) =
            \<lparr>status = 400, message = ''Insufficient funds.'',
             numbers = [(''currentBalance'', balance s),
                        (''amountToTransfer'', num_of (amount req))],
             err = None\<rparr>)"
  using assms
  by (auto simp: transfer_def Let_def findById_def insufficient_funds_def
      split: option.splits sum.splits)

theorem insufficient_funds_untouched_witness:
  "lookup idB (setup_accounts idA idB) = Some \<lparr>oid = idB, name = ''UserB'', balance = Fin 500\<rparr> \<and>
   js_lt (Fin 500) (Fin 600) \<and>
   db_after (transfer hex_ids no_faults
       \<lparr>fromAccountId = JStr idB, toAccountId = JStr idA, amount = JNum (Fin 600)\<rparr>
       (setup_accounts idA idB)) = setup_accounts idA idB \<and>
   reply (transfer hex_ids no_faults
       \<lparr>fromAccountId = JStr idB, toAccountId = JStr idA, amount = JNum (Fin 600)\<rparr>
       (setup_accounts idA idB))
     = \<lparr>status = 400, message = ''Insufficient funds.'',
        numbers = [(''currentBalance'', Fin 500), (''amountToTransfer'', Fin 600)],
        err = None\<rparr>"
proof -
  let ?req = "\<lparr>fromAccountId = JStr idB, toAccountId = JStr idA, amount = JNum (Fin 600)\<rparr>"
  have v: "validate hex_ids ?req = None"
    using sample_ids by (intro validate_sample) (auto simp: positive_def)
  from insufficient_funds_untouched [of hex_ids ?req idB "setup_accounts idA idB"
      "\<lparr>oid = idB, name = ''UserB'', balance = Fin 500\<rparr>" no_faults] v
  show ?thesis by (simp add: hex_ids_cast lookup_setup)
qed

text \<open>
  \<^bold>\<open>C9\<close> (validation of the amount), as the handler has it. An amount that is not a
  Number greater than zero (absent, null, zero, NaN, negative, negative infinity, or not a
  Number at all) is rejected with status 400 by the first check that fails: "Missing
  fields" when an id or the amount is falsy (zero and NaN are), "Amount must be a positive
  number." otherwise. The handler then leaves the collection alone and makes no call on the
  store. Positive infinity is a Number greater than zero and is not rejected.
\<close>

theorem validation_rejects_amount:
  assumes "\<not> positive (amount req)"
  shows "validate m req =
           Some (if \<not> truthy (fromAccountId req) \<or> \<not> truthy (toAccountId req) \<or>
                    \<not> truthy (amount req)
                 then missing_fields else bad_amount) \<and>
         status missing_fields = 400 \<and> status bad_amount = 400 \<and>
         (\<forall>f db. transfer m f req db =
            \<lparr>reply = (if \<not> truthy (fromAccountId req) \<or> \<not> truthy (toAccountId req) \<or>
                         \<not> truthy (amount req)
                      then missing_fields else bad_amount),
             db_after = db, ops = []\<rparr>)"
proof -
  have v: "validate m req =
           Some (if \<not> truthy (fromAccountId req) \<or> \<not> truthy (toAccountId req) \<or>
                    \<not> truthy (amount req)
                 then missing_fields else bad_amount)"
    using assms not_positive_iff [of "amount req"] by (auto simp: validate_def)
  show ?thesis
    using v transfer_invalid [OF v] by simp
qed

theorem validation_rejects_amount_witness:
  "\<not> positive (JNum (Fin (- 5))) \<and>
   validate hex_ids \<lparr>fromAccountId = JStr idA, toAccountId = JStr idB, amount = JNum (Fin (- 5))\<rparr>
     = Some bad_amount \<and>
   \<not> positive (JNum (Fin 0)) \<and>
   validate hex_ids \<lparr>fromAccountId = JStr idA, toAccountId = JStr idB, amount = JNum (Fin 0)\<rparr>
     = Some missing_fields"
proof -
  let ?neg = "\<lparr>fromAccountId = JStr idA, toAccountId = JStr idB, amount = JNum (Fin (- 5))\<rparr>"
  let ?zero = "\<lparr>fromAccountId = JStr idA, toAccountId = JStr idB, amount = JNum (Fin 0)\<rparr>"
  have n: "\<not> positive (amount ?neg)" and z: "\<not> positive (amount ?zero)"
    by (simp_all add: positive_def)
  from validation_rejects_amount [OF n, of hex_ids]
    validation_rejects_amount [OF z, of hex_ids]
  show ?thesis using n z truthy_ids by simp
qed

text \<open>
  The amount \<^verbatim>\<open>1e999\<close> parses to positive infinity. It passes validation, and the handler
  goes on to read both accounts before it answers.
\<close>

theorem infinite_amount_accepted:
  "validate hex_ids \<lparr>fromAccountId = JStr idA, toAccountId = JStr idB, amount = JNum PosInf\<rparr> = None \<and>
   transfer hex_ids no_faults
       \<lparr>fromAccountId = JStr idA, toAccountId = JStr idB, amount = JNum PosInf\<rparr>
       (setup_accounts idA idB)
     = \<lparr>reply = insufficient_funds (Fin 1000) PosInf, db_after = setup_accounts idA idB,
        ops = [FindById (JStr idA), FindById (JStr idB)]\<rparr>"
proof -
  let ?req = "\<lparr>fromAccountId = JStr idA, toAccountId = JStr idB, amount = JNum PosInf\<rparr>"
  have v: "validate hex_ids ?req = None"
    using sample_ids by (intro validate_sample) (auto simp: positive_def)
  show ?thesis
    using v by (simp add: transfer_valid_found [OF v] hex_ids_cast lookup_setup)
qed

section \<open>Transfers to the same account\<close>

text \<open>
  A request whose \<^verbatim>\<open>fromAccountId\<close> and \<^verbatim>\<open>toAccountId\<close> hold the same value \<open>x\<close> (a string, a
  number, a boolean, null or nothing: anything but an object or an array) is answered with
  status 400, whatever the amount, the collection and the environment; the collection is
  returned as it was and the handler makes no call on the store, neither a read nor a
  write. When \<open>x\<close> is truthy and the amount is a positive Number, the answer is the one of
  the check \<^verbatim>\<open>fromAccountId === toAccountId\<close>: "Cannot transfer money to the same account."
\<close>

lemma identical_ids_rejected:
  assumes "primitive x"
  shows "\<exists>r. transfer m f \<lparr>fromAccountId = x, toAccountId = x, amount = a\<rparr> db
            = \<lparr>reply = r, db_after = db, ops = []\<rparr> \<and>
          status r = 400 \<and> (truthy x \<and> positive a \<longrightarrow> r = same_account)"
proof -
  let ?req = "\<lparr>fromAccountId = x, toAccountId = x, amount = a\<rparr>"
  have "validate m ?req \<noteq> None"
    using assms strict_eq_refl [of x] by (auto simp: validate_None_iff)
  then obtain r where r: "validate m ?req = Some r" by blast
  have "r = same_account" if "truthy x" "positive a"
  proof -
    have "truthy a" using that(2) by (cases a) (auto simp: positive_def)
    with that assms r show ?thesis
      using strict_eq_refl [of x] not_positive_iff [of a] by (auto simp: validate_def)
  qed
  with r transfer_invalid [OF r] validate_status [OF r] show ?thesis by blast
qed

text \<open>
  \<^bold>\<open>C7\<close> (self-transfer rejection). The check \<^verbatim>\<open>fromAccountId === toAccountId\<close> compares
  the two values of the request, not the accounts they name, and an ObjectId has more than
  one spelling: its hexadecimal digits are read without regard to case. A transfer of 100
  from \<^verbatim>\<open>AAAAAAAAAAAAAAAAAAAAAAAA\<close> to \<^verbatim>\<open>aaaaaaaaaaaaaaaaaaaaaaaa\<close>, both UserA, passes
  validation, reads UserA twice, saves 900 and then 1100 on the same stored document, and
  is answered 200 "Transfer successful!": the transfer to the same account is not
  refused, the store is read and written, and UserA ends with 1100 instead of 1000.
\<close>

theorem aliased_ids_one_account:
  "transfer hex_ids no_faults
      \<lparr>fromAccountId = JStr ''AAAAAAAAAAAAAAAAAAAAAAAA'', toAccountId = JStr idA,
       amount = JNum (Fin 100)\<rparr>
      (setup_accounts idA idB)
   = \<lparr>reply = transfer_successful (Fin 900) (Fin 1100),
      db_after = [\<lparr>oid = idA, name = ''UserA'', balance = Fin 1100\<rparr>,
                  \<lparr>oid = idB, name = ''UserB'', balance = Fin 500\<rparr>],
      ops = [FindById (JStr ''AAAAAAAAAAAAAAAAAAAAAAAA''), FindById (JStr idA),
             Save idA (Fin 900), Save idA (Fin 1100)]\<rparr>"
proof -
  let ?req = "\<lparr>fromAccountId = JStr ''AAAAAAAAAAAAAAAAAAAAAAAA'', toAccountId = JStr idA,
       amount = JNum (Fin 100)\<rparr>"
  have v: "validate hex_ids ?req = None"
    by (simp add: validate_None_iff hex_ids_def idA_def hex_digit_def)
  have c: "castObjectId hex_ids (fromAccountId ?req) = Some idA"
    "castObjectId hex_ids (toAccountId ?req) = Some idA"
    by (simp_all add: hex_ids_def idA_def hex_digit_def lower_hex_def)
  show ?thesis
    unfolding transfer_valid_found [OF v c no_faults_simps(1,2)]
    by (simp add: Let_def setup_accounts_def sample_arith)
qed

section \<open>Non-negative balances\<close>

lemma transfer_nonneg:
  assumes "nonneg_balance k db"
  shows "nonneg_balance k (db_after (transfer m f req db))"
  using assms
  by (auto simp: transfer_def Let_def split: option.splits sum.splits intro: save_nonneg)

lemma transfers_nonneg:
  "nonneg_balance k db \<Longrightarrow> nonneg_balance k (snd (transfers m xs db))"
proof (induction xs arbitrary: db)
  case Nil
  then show ?case by simp
next
  case (Cons x xs)
  obtain f req where x: "x = (f, req)" by (cases x)
  from Cons.IH [OF transfer_nonneg [OF Cons.prems, of m f req]]
  show ?case by (auto simp: x Let_def split: prod.splits)
qed

lemma step_nonneg:
  assumes "nonneg_balance k db"
  shows "nonneg_balance k (snd (step m t db))"
  using assms
  by (cases t) (auto simp: Let_def split: option.splits sum.splits intro: save_nonneg)

lemma run_nonneg:
  "nonneg_balance k db \<Longrightarrow> nonneg_balance k (snd (run m sched ts db))"
proof (induction sched arbitrary: ts db)
  case Nil
  then show ?case by simp
next
  case (Cons i sched)
  show ?case
  proof (cases "i < length ts")
    case True
    obtain t' db' where s: "step m (ts ! i) db = (t', db')" by (cases "step m (ts ! i) db")
    have "nonneg_balance k db'"
      using step_nonneg [OF Cons.prems, of m "ts ! i"] by (simp add: s)
    from Cons.IH [OF this] True s show ?thesis by simp
  next
    case False
    with Cons show ?thesis by simp
  qed
qed

text \<open>
  \<^bold>\<open>C4\<close> (non-negativity). An account whose stored balance is \<^verbatim>\<open>>= 0\<close> still exists with a
  stored balance \<^verbatim>\<open>>= 0\<close> after any list of transfer requests served one after the other,
  each in any environment (so successful, refused or failed), and after any number of
  operations of any requests in flight together, in any order: \<^verbatim>\<open>save()\<close> validates
  \<^verbatim>\<open>min: 0\<close> before every write.
\<close>

theorem balance_never_negative:
  assumes "nonneg_balance k db"
  shows "nonneg_balance k (snd (transfers m xs db)) \<and>
         nonneg_balance k (snd (run m sched ts db))"
  using transfers_nonneg [OF assms] run_nonneg [OF assms] by blast

theorem balance_never_negative_witness:
  "nonneg_balance idA (setup_accounts idA idB) \<and>
   nonneg_balance idA (snd (transfers hex_ids
      [(no_faults, \<lparr>fromAccountId = JStr idA, toAccountId = JStr idB, amount = JNum (Fin 300)\<rparr>)]
      (setup_accounts idA idB))) \<and>
   nonneg_balance idA (snd (run hex_ids [0, 0, 0, 0]
      [Start no_faults \<lparr>fromAccountId = JStr idA, toAccountId = JStr idB, amount = JNum (Fin 300)\<rparr>]
      (setup_accounts idA idB)))"
proof -
  have h: "nonneg_balance idA (setup_accounts idA idB)"
    by (simp add: nonneg_balance_def lookup_setup js_le_def)
  from balance_never_negative [OF h] h show ?thesis by blast
qed

section \<open>Frame\<close>



section \<open>A transfer whose second write fails\<close>




section \<open>The write phase\<close>

text \<open>
  \<^bold>\<open>C5\<close> (the mutation primitive), as the handler has it. The two saves of the transfer
  path are not conditional on what is stored. Take a request that has read both accounts,
  of two different ids, and is about to save, with \<open>s'\<close> and \<open>r'\<close> its two documents in
  memory.
  \<^item> If both documents pass the schema, both balances differ from the balances loaded, the
    store accepts both operations and both ids are still stored, then both saves succeed,
    the request is answered 200, and the two stored balances become the handler's values,
    whatever the two stored documents \<open>a\<close> and \<open>b\<close> hold at that moment; every other
    account is as it was. Nothing is compared with what the request read.
  \<^item> A save of a document whose balance is the balance loaded writes nothing.
  \<^item> A save that fails writes nothing and the request is answered 500; the failures are
    those of validation, of the store and of a missing document.
\<close>

theorem write_phase_unconditional:
  "(schema_valid s' \<and> schema_valid r' \<and>
    balance s' \<noteq> loaded_balance s' \<and> balance r' \<noteq> loaded_balance r' \<and>
    \<not> save_sender_fails f \<and> \<not> save_receiver_fails f \<and> oid s' \<noteq> oid r' \<and>
    lookup (oid s') db = Some a \<and> lookup (oid r') db = Some b \<longrightarrow>
      (\<exists>db'. run m [0, 0] [SavingSender f s' r'] db =
                ([Done (transfer_successful (balance s') (balance r'))], db') \<and>
             lookup (oid s') db' = Some (a\<lparr>balance := balance s'\<rparr>) \<and>
             lookup (oid r') db' = Some (b\<lparr>balance := balance r'\<rparr>) \<and>
             (\<forall>j. j \<noteq> oid s' \<and> j \<noteq> oid r' \<longrightarrow> lookup j db' = lookup j db))) \<and>
   (balance s' = loaded_balance s' \<longrightarrow> snd (step m (SavingSender f s' r') db) = db) \<and>
   (balance r' = loaded_balance r' \<longrightarrow> snd (step m (SavingReceiver f s' r') db) = db) \<and>
   (\<forall>e. save (save_sender_fails f) s' db = Inl e \<longrightarrow>
      step m (SavingSender f s' r') db = (Done (error_during_transfer e), db) \<and>
      e \<in> {ValidationError, StoreError, DocumentNotFoundError}) \<and>
   (\<forall>e. save (save_receiver_fails f) r' db = Inl e \<longrightarrow>
      step m (SavingReceiver f s' r') db = (Done (error_during_transfer e), db) \<and>
      e \<in> {ValidationError, StoreError, DocumentNotFoundError})"
proof (intro conjI impI allI)
  assume h: "schema_valid s' \<and> schema_valid r' \<and>
    balance s' \<noteq> loaded_balance s' \<and> balance r' \<noteq> loaded_balance r' \<and>
    \<not> save_sender_fails f \<and> \<not> save_receiver_fails f \<and> oid s' \<noteq> oid r' \<and>
    lookup (oid s') db = Some a \<and> lookup (oid r') db = Some b"
  then obtain db1 where u1: "updateOne (oid s') (balance s') db = Some db1"
    using updateOne_Some_iff [of "oid s'" "balance s'" db] by auto
  have s1: "save (save_sender_fails f) s' db = Inr db1"
    using h u1 by (simp add: save_def)
  have b1: "lookup (oid r') db1 = Some b" and a1: "lookup (oid s') db1 = Some (a\<lparr>balance := balance s'\<rparr>)"
    using updateOne_lookup [OF u1] h by auto
  obtain db2 where u2: "updateOne (oid r') (balance r') db1 = Some db2"
    using updateOne_Some_iff [of "oid r'" "balance r'" db1] b1 by auto
  have s2: "save (save_receiver_fails f) r' db1 = Inr db2"
    using h u2 by (simp add: save_def)
  have "run m [0, 0] [SavingSender f s' r'] db =
      ([Done (transfer_successful (balance s') (balance r'))], db2)"
    by (simp add: s1 s2)
  moreover have "lookup (oid s') db2 = Some (a\<lparr>balance := balance s'\<rparr>)"
    using updateOne_lookup [OF u2, of "oid s'"] a1 h by simp
  moreover have "lookup (oid r') db2 = Some (b\<lparr>balance := balance r'\<rparr>)"
    using updateOne_lookup [OF u2, of "oid r'"] b1 by simp
  moreover have "\<forall>j. j \<noteq> oid s' \<and> j \<noteq> oid r' \<longrightarrow> lookup j db2 = lookup j db"
    using updateOne_lookup [OF u2] updateOne_lookup [OF u1] by simp
  ultimately show "\<exists>db'. run m [0, 0] [SavingSender f s' r'] db =
                ([Done (transfer_successful (balance s') (balance r'))], db') \<and>
             lookup (oid s') db' = Some (a\<lparr>balance := balance s'\<rparr>) \<and>
             lookup (oid r') db' = Some (b\<lparr>balance := balance r'\<rparr>) \<and>
             (\<forall>j. j \<noteq> oid s' \<and> j \<noteq> oid r' \<longrightarrow> lookup j db' = lookup j db)"
    by blast
next
  assume "balance s' = loaded_balance s'"
  then show "snd (step m (SavingSender f s' r') db) = db"
    by (auto simp: save_def split: option.splits)
next
  assume "balance r' = loaded_balance r'"
  then show "snd (step m (SavingReceiver f s' r') db) = db"
    by (auto simp: save_def split: option.splits)
next
  fix e assume "save (save_sender_fails f) s' db = Inl e"
  then show "step m (SavingSender f s' r') db = (Done (error_during_transfer e), db)"
    and "e \<in> {ValidationError, StoreError, DocumentNotFoundError}"
    by (auto simp: save_def split: if_splits option.splits)
next
  fix e assume "save (save_receiver_fails f) r' db = Inl e"
  then show "step m (SavingReceiver f s' r') db = (Done (error_during_transfer e), db)"
    and "e \<in> {ValidationError, StoreError, DocumentNotFoundError}"
    by (auto simp: save_def split: if_splits option.splits)
qed

text \<open>
  At documents computed from UserA 1000 and UserB 500 (a transfer of 300), saved into a
  collection that meanwhile holds 900 and 600; and at a document whose balance is negative.
\<close>

theorem write_phase_unconditional_witness:
  "(let s' = \<lparr>oid = idA, name = ''UserA'', balance = Fin 700, loaded_balance = Fin 1000\<rparr>;
        r' = \<lparr>oid = idB, name = ''UserB'', balance = Fin 800, loaded_balance = Fin 500\<rparr>;
        n' = \<lparr>oid = idA, name = ''UserA'', balance = Fin (- 1), loaded_balance = Fin 1000\<rparr>;
        u' = \<lparr>oid = idA, name = ''UserA'', balance = Fin 1000, loaded_balance = Fin 1000\<rparr>;
        a = \<lparr>oid = idA, name = ''UserA'', balance = Fin 900\<rparr>;
        b = \<lparr>oid = idB, name = ''UserB'', balance = Fin 600\<rparr>;
        db = [a, b]
    in schema_valid s' \<and> schema_valid r' \<and>
       balance s' \<noteq> loaded_balance s' \<and> balance r' \<noteq> loaded_balance r' \<and>
       oid s' \<noteq> oid r' \<and> lookup (oid s') db = Some a \<and> lookup (oid r') db = Some b \<and>
       run hex_ids [0, 0] [SavingSender no_faults s' r'] db =
         ([Done (transfer_successful (Fin 700) (Fin 800))],
          [\<lparr>oid = idA, name = ''UserA'', balance = Fin 700\<rparr>,
           \<lparr>oid = idB, name = ''UserB'', balance = Fin 800\<rparr>]) \<and>
       balance u' = loaded_balance u' \<and>
       snd (step hex_ids (SavingSender no_faults u' r') db) = db \<and>
       save (save_sender_fails no_faults) n' db = Inl ValidationError \<and>
       step hex_ids (SavingSender no_faults n' r') db =
         (Done (error_during_transfer ValidationError), db))"
proof -
  let ?s' = "\<lparr>oid = idA, name = ''UserA'', balance = Fin 700, loaded_balance = Fin 1000\<rparr>"
  let ?r' = "\<lparr>oid = idB, name = ''UserB'', balance = Fin 800, loaded_balance = Fin 500\<rparr>"
  let ?n' = "\<lparr>oid = idA, name = ''UserA'', balance = Fin (- 1), loaded_balance = Fin 1000\<rparr>"
  let ?u' = "\<lparr>oid = idA, name = ''UserA'', balance = Fin 1000, loaded_balance = Fin 1000\<rparr>"
  let ?a = "\<lparr>oid = idA, name = ''UserA'', balance = Fin 900\<rparr>"
  let ?b = "\<lparr>oid = idB, name = ''UserB'', balance = Fin 600\<rparr>"
  let ?db = "[?a, ?b]"
  let ?db' = "[\<lparr>oid = idA, name = ''UserA'', balance = Fin 700\<rparr>,
               \<lparr>oid = idB, name = ''UserB'', balance = Fin 800\<rparr>]"
  have h: "schema_valid ?s'" "schema_valid ?r'"
    "balance ?s' \<noteq> loaded_balance ?s'" "balance ?r' \<noteq> loaded_balance ?r'"
    "oid ?s' \<noteq> oid ?r'" "lookup (oid ?s') ?db = Some ?a" "lookup (oid ?r') ?db = Some ?b"
    using sample_ids by (simp_all add: schema_valid_def)
  have n: "save (save_sender_fails no_faults) ?n' ?db = Inl ValidationError"
    by simp
  note t = write_phase_unconditional [of ?s' ?r' no_faults ?db ?a ?b hex_ids]
  from t h obtain db' where
    r: "run hex_ids [0, 0] [SavingSender no_faults ?s' ?r'] ?db =
        ([Done (transfer_successful (Fin 700) (Fin 800))], db')"
    and la: "lookup idA db' = Some \<lparr>oid = idA, name = ''UserA'', balance = Fin 700\<rparr>"
    and lb: "lookup idB db' = Some \<lparr>oid = idB, name = ''UserB'', balance = Fin 800\<rparr>"
    by auto
  have "run hex_ids [0, 0] [SavingSender no_faults ?s' ?r'] ?db =
      ([Done (transfer_successful (Fin 700) (Fin 800))], ?db')"
    using sample_ids by simp
  moreover from write_phase_unconditional [of ?u' ?r' no_faults ?db ?a ?b hex_ids]
  have "snd (step hex_ids (SavingSender no_faults ?u' ?r') ?db) = ?db" by simp
  moreover from write_phase_unconditional [of ?n' ?r' no_faults ?db ?a ?b hex_ids] n
  have "step hex_ids (SavingSender no_faults ?n' ?r') ?db =
      (Done (error_during_transfer ValidationError), ?db)"
    by blast
  ultimately show ?thesis
    using h n r unfolding Let_def by simp
qed

text \<open>
  Two requests from UserA to UserB, of 300 and of 100. The first reads both accounts; the
  second then runs from start to end (UserA 900, UserB 600); the first then saves what it
  computed from its reads. Both saves succeed, both requests are answered 200, and the
  collection ends at UserA 700, UserB 800: the second transfer is overwritten and no
  conflict is reported.
\<close>

theorem save_overwrites_concurrent_change:
  "run hex_ids [0, 0, 1, 1, 1, 1, 0, 0]
     [Start no_faults \<lparr>fromAccountId = JStr idA, toAccountId = JStr idB, amount = JNum (Fin 300)\<rparr>,
      Start no_faults \<lparr>fromAccountId = JStr idA, toAccountId = JStr idB, amount = JNum (Fin 100)\<rparr>]
     (setup_accounts idA idB)
   = ([Done (transfer_successful (Fin 700) (Fin 800)),
       Done (transfer_successful (Fin 900) (Fin 600))],
      [\<lparr>oid = idA, name = ''UserA'', balance = Fin 700\<rparr>,
       \<lparr>oid = idB, name = ''UserB'', balance = Fin 800\<rparr>])"
  using sample_ids
  by (simp add: Let_def setup_accounts_def sample_arith)

text \<open>
  A save of a document that was not changed sends no update. A transfer of \<open>2\<^sup>-\<^sup>6\<^sup>0\<close> from
  UserA (1000) to UserB (500) computes 1000 and 500 again, the Numbers nearest to the exact
  results. While it waits to save, a transfer of 100 runs from start to end (900 and 600).
  The two saves of the first request then write nothing: both requests are answered 200 and
  the collection stays at 900 and 600.
\<close>

lemma unmodified_save_writes_nothing:
  "run hex_ids [0, 0, 1, 1, 1, 1, 0, 0]
     [Start no_faults \<lparr>fromAccountId = JStr idA, toAccountId = JStr idB,
        amount = JNum (Fin (1 / 2 ^ 60))\<rparr>,
      Start no_faults \<lparr>fromAccountId = JStr idA, toAccountId = JStr idB, amount = JNum (Fin 100)\<rparr>]
     (setup_accounts idA idB)
   = ([Done (transfer_successful (Fin 1000) (Fin 500)),
       Done (transfer_successful (Fin 900) (Fin 600))],
      [\<lparr>oid = idA, name = ''UserA'', balance = Fin 900\<rparr>,
       \<lparr>oid = idB, name = ''UserB'', balance = Fin 600\<rparr>])"
proof -
  have "fround (1000 - 1 / 2 ^ 60) = Fin 1000"
    using fround_eqI [of 9 "1000 - 1 / 2 ^ 60" 8796093022208000]
    by simp
  then have f1: "js_sub (Fin 1000) (Fin (1 / 2 ^ 60)) = Fin 1000"
    by (simp add: js_sub_def)
  have f2: "fround (500 + 1 / 2 ^ 60) = Fin 500"
    using fround_eqI [of 8 "500 + 1 / 2 ^ 60" 8796093022208000]
    by simp
  show ?thesis
    using sample_ids
    by (simp add: Let_def setup_accounts_def sample_arith f1 [simplified] f2 [simplified])
qed

section \<open>Conservation\<close>

lemma transfers_whole_conserve:
  assumes "ledger_ok db" "list_all (\<lambda>x. whole_transfer m (snd x)) xs"
    and "list_all (\<lambda>r. status r = 200) (fst (transfers m xs db))"
  shows "total (snd (transfers m xs db)) = total db \<and> ledger_ok (snd (transfers m xs db))"
  using assms
proof (induction xs arbitrary: db)
  case Nil
  then show ?case by simp
next
  case (Cons x xs)
  obtain f req where x: "x = (f, req)" by (cases x)
  let ?db1 = "db_after (transfer m f req db)"
  have w: "whole (num_of (amount req))"
    and d: "castObjectId m (fromAccountId req) \<noteq> castObjectId m (toAccountId req)"
    using Cons.prems(2) by (simp_all add: x whole_transfer_def)
  have st: "status (reply (transfer m f req db)) = 200"
    and rest: "list_all (\<lambda>r. status r = 200) (fst (transfers m xs ?db1))"
    using Cons.prems(3) by (simp_all add: x Let_def split: prod.splits)
  from transfer_whole_200 [OF Cons.prems(1) w d st]
  have 1: "total ?db1 = total db" "ledger_ok ?db1" by blast+
  have 2: "list_all (\<lambda>x. whole_transfer m (snd x)) xs" using Cons.prems(2) by simp
  from Cons.IH [OF 1(2) 2 rest] 1(1) show ?case
    by (auto simp: x Let_def split: prod.splits)
qed

lemma transfer_refused_unchanged:
  assumes "status (reply (transfer m f req db)) \<noteq> 200"
    and "status (reply (transfer m f req db)) \<noteq> 500"
  shows "db_after (transfer m f req db) = db"
  using assms
  by (auto simp: transfer_def Let_def split: option.splits sum.splits if_splits)

lemma transfer_500:
  assumes "status (reply (transfer m f req db)) = 500"
  shows "db_after (transfer m f req db) = db \<or>
         (\<exists>ks s. castObjectId m (fromAccountId req) = Some ks \<and> lookup ks db = Some s \<and>
            updateOne ks (js_sub (balance s) (num_of (amount req))) db
              = Some (db_after (transfer m f req db)))"
proof (cases "validate m req")
  case (Some r)
  then show ?thesis by (simp add: transfer_invalid)
next
  case None
  show ?thesis
  proof (cases "db_after (transfer m f req db) = db")
    case True
    then show ?thesis by simp
  next
    case False
    with assms None obtain ks s db1 where
      ks: "castObjectId m (fromAccountId req) = Some ks" and s: "lookup ks db = Some s" and
      s1: "save (save_sender_fails f)
             ((load s)\<lparr>balance := js_sub (balance s) (num_of (amount req))\<rparr>) db = Inr db1" and
      d: "db_after (transfer m f req db) = db1"
      by (auto simp: transfer_def Let_def findById_def
          split: sum.splits option.splits if_splits)
    have "updateOne ks (js_sub (balance s) (num_of (amount req))) db = Some db1"
      using save_loaded [OF s1] s lookup_oid [OF s] by simp
    with ks s d show ?thesis by auto
  qed
qed

lemma ledger_ok_setup: "ledger_ok (setup_accounts idA idB)"
  by (simp add: ledger_ok_def setup_accounts_def whole_def)

lemma whole_transfer_AB:
  "whole n \<Longrightarrow>
   whole_transfer hex_ids \<lparr>fromAccountId = JStr idA, toAccountId = JStr idB, amount = JNum n\<rparr>"
  "whole n \<Longrightarrow>
   whole_transfer hex_ids \<lparr>fromAccountId = JStr idB, toAccountId = JStr idA, amount = JNum n\<rparr>"
  using sample_ids by (simp_all add: whole_transfer_def hex_ids_cast)

text \<open>
  \<^bold>\<open>C1\<close> (conservation), as the handler has it. On a ledger of whole amounts (every
  balance and the sum of all balances a non-negative integer of at most \<open>2\<^sup>5\<^sup>3\<close>), for
  requests of whole amounts whose two ids are not cast to the same ObjectId:
  \<^item> after any list of requests served one after the other that were all answered 200, the
    sum of all balances is what it was;
  \<^item> a request answered 200 has applied both the debit and the credit, exactly;
  \<^item> a request answered 400 or 404 leaves the collection as it was;
  \<^item> a request answered 500 leaves the collection as it was, or as it was but for the
    sender's stored balance, set to the value the handler computed for
    \<^verbatim>\<open>sender.balance - amount\<close>.
\<close>

theorem whole_transfers_conserve:
  assumes "ledger_ok db" "list_all (\<lambda>x. whole_transfer m (snd x)) xs"
  shows
    "(list_all (\<lambda>r. status r = 200) (fst (transfers m xs db)) \<longrightarrow>
        total (snd (transfers m xs db)) = total db) \<and>
     (whole_transfer m req \<and> status (reply (transfer m f req db)) = 200 \<longrightarrow>
        (\<exists>ks kr s r.
           castObjectId m (fromAccountId req) = Some ks \<and>
           castObjectId m (toAccountId req) = Some kr \<and>
           lookup ks db = Some s \<and> lookup kr db = Some r \<and>
           lookup ks (db_after (transfer m f req db)) =
             Some (s\<lparr>balance := Fin (value_of (balance s) - value_of (num_of (amount req)))\<rparr>) \<and>
           lookup kr (db_after (transfer m f req db)) =
             Some (r\<lparr>balance := Fin (value_of (balance r) + value_of (num_of (amount req)))\<rparr>))) \<and>
     (status (reply (transfer m f req db)) \<noteq> 200 \<and>
      status (reply (transfer m f req db)) \<noteq> 500 \<longrightarrow>
        db_after (transfer m f req db) = db) \<and>
     (status (reply (transfer m f req db)) = 500 \<longrightarrow>
        db_after (transfer m f req db) = db \<or>
        (\<exists>ks s. castObjectId m (fromAccountId req) = Some ks \<and> lookup ks db = Some s \<and>
           updateOne ks (js_sub (balance s) (num_of (amount req))) db
             = Some (db_after (transfer m f req db))))"
proof (intro conjI impI)
  assume "list_all (\<lambda>r. status r = 200) (fst (transfers m xs db))"
  from transfers_whole_conserve [OF assms this]
  show "total (snd (transfers m xs db)) = total db" by simp
next
  assume a: "whole_transfer m req \<and> status (reply (transfer m f req db)) = 200"
  then have w: "whole (num_of (amount req))"
    and d: "castObjectId m (fromAccountId req) \<noteq> castObjectId m (toAccountId req)"
    and st: "status (reply (transfer m f req db)) = 200"
    by (simp_all add: whole_transfer_def)
  from transfer_whole_200 [OF assms(1) w d st]
  show "\<exists>ks kr s r.
           castObjectId m (fromAccountId req) = Some ks \<and>
           castObjectId m (toAccountId req) = Some kr \<and>
           lookup ks db = Some s \<and> lookup kr db = Some r \<and>
           lookup ks (db_after (transfer m f req db)) =
             Some (s\<lparr>balance := Fin (value_of (balance s) - value_of (num_of (amount req)))\<rparr>) \<and>
           lookup kr (db_after (transfer m f req db)) =
             Some (r\<lparr>balance := Fin (value_of (balance r) + value_of (num_of (amount req)))\<rparr>)"
    by metis
next
  assume "status (reply (transfer m f req db)) \<noteq> 200 \<and>
      status (reply (transfer m f req db)) \<noteq> 500"
  then show "db_after (transfer m f req db) = db"
    using transfer_refused_unchanged by blast
next
  assume "status (reply (transfer m f req db)) = 500"
  then show "db_after (transfer m f req db) = db \<or>
        (\<exists>ks s. castObjectId m (fromAccountId req) = Some ks \<and> lookup ks db = Some s \<and>
           updateOne ks (js_sub (balance s) (num_of (amount req))) db
             = Some (db_after (transfer m f req db)))"
    by (rule transfer_500)
qed

theorem whole_transfers_conserve_witness:
  "(let db = setup_accounts idA idB;
        ab = \<lparr>fromAccountId = JStr idA, toAccountId = JStr idB, amount = JNum (Fin 300)\<rparr>;
        ba = \<lparr>fromAccountId = JStr idB, toAccountId = JStr idA, amount = JNum (Fin 100)\<rparr>;
        big = \<lparr>fromAccountId = JStr idB, toAccountId = JStr idA, amount = JNum (Fin 600)\<rparr>;
        xs = [(no_faults, ab), (no_faults, ba)];
        faulty = no_faults\<lparr>save_receiver_fails := True\<rparr>
    in ledger_ok db \<and> list_all (\<lambda>x. whole_transfer hex_ids (snd x)) xs \<and>
       list_all (\<lambda>r. status r = 200) (fst (transfers hex_ids xs db)) \<and>
       total db = 1500 \<and> total (snd (transfers hex_ids xs db)) = 1500 \<and>
       status (reply (transfer hex_ids no_faults ab db)) = 200 \<and>
       lookup idA (db_after (transfer hex_ids no_faults ab db))
         = Some \<lparr>oid = idA, name = ''UserA'', balance = Fin 700\<rparr> \<and>
       lookup idB (db_after (transfer hex_ids no_faults ab db))
         = Some \<lparr>oid = idB, name = ''UserB'', balance = Fin 800\<rparr> \<and>
       status (reply (transfer hex_ids no_faults big db)) = 400 \<and>
       db_after (transfer hex_ids no_faults big db) = db \<and>
       status (reply (transfer hex_ids faulty ba db)) = 500 \<and>
       updateOne idB (Fin 400) db = Some (db_after (transfer hex_ids faulty ba db)))"
proof -
  let ?db = "setup_accounts idA idB"
  let ?ab = "\<lparr>fromAccountId = JStr idA, toAccountId = JStr idB, amount = JNum (Fin 300)\<rparr>"
  let ?ba = "\<lparr>fromAccountId = JStr idB, toAccountId = JStr idA, amount = JNum (Fin 100)\<rparr>"
  let ?big = "\<lparr>fromAccountId = JStr idB, toAccountId = JStr idA, amount = JNum (Fin 600)\<rparr>"
  let ?xs = "[(no_faults, ?ab), (no_faults, ?ba)]"
  let ?faulty = "no_faults\<lparr>save_receiver_fails := True\<rparr>"
  have ok: "ledger_ok ?db" by (rule ledger_ok_setup)
  have wt: "list_all (\<lambda>x. whole_transfer hex_ids (snd x)) ?xs"
    by (simp add: whole_transfer_AB whole_def)
  have ev: "transfers hex_ids ?xs ?db =
      ([transfer_successful (Fin 700) (Fin 800), transfer_successful (Fin 700) (Fin 800)],
       [\<lparr>oid = idA, name = ''UserA'', balance = Fin 800\<rparr>,
        \<lparr>oid = idB, name = ''UserB'', balance = Fin 700\<rparr>])"
    using sample_ids
    by (simp add: transfer_def Let_def setup_accounts_def sample_arith
        js_sub_whole [of 800 100, simplified] js_add_whole [of 700 100, simplified])
  have all: "list_all (\<lambda>r. status r = 200) (fst (transfers hex_ids ?xs ?db))"
    unfolding ev by simp
  have t0: "total ?db = 1500" by (simp add: setup_accounts_def)
  have s1: "status (reply (transfer hex_ids no_faults ?ab ?db)) = 200"
    by (simp add: transfer_sample_300)
  have s2: "status (reply (transfer hex_ids no_faults ?big ?db)) = 400"
    "db_after (transfer hex_ids no_faults ?big ?db) = ?db"
    using sample_ids by (simp_all add: transfer_def Let_def setup_accounts_def)
  have s3: "status (reply (transfer hex_ids ?faulty ?ba ?db)) = 500"
    "db_after (transfer hex_ids ?faulty ?ba ?db) =
       [\<lparr>oid = idA, name = ''UserA'', balance = Fin 1000\<rparr>,
        \<lparr>oid = idB, name = ''UserB'', balance = Fin 400\<rparr>]"
    using sample_ids
    by (simp_all add: transfer_def Let_def setup_accounts_def no_faults_def sample_arith)
  have wab: "whole_transfer hex_ids ?ab" by (simp add: whole_transfer_AB whole_def)
  from whole_transfers_conserve [OF ok wt, of ?ab no_faults] all wab s1
  have c1: "total (snd (transfers hex_ids ?xs ?db)) = 1500"
    and c2: "lookup idA (db_after (transfer hex_ids no_faults ?ab ?db))
         = Some \<lparr>oid = idA, name = ''UserA'', balance = Fin 700\<rparr>"
      "lookup idB (db_after (transfer hex_ids no_faults ?ab ?db))
         = Some \<lparr>oid = idB, name = ''UserB'', balance = Fin 800\<rparr>"
    by (auto simp: t0 hex_ids_cast lookup_setup)
  from whole_transfers_conserve [OF ok wt, of ?big no_faults] s2
  have c3: "db_after (transfer hex_ids no_faults ?big ?db) = ?db" by simp
  from whole_transfers_conserve [OF ok wt, of ?ba ?faulty] s3 sample_ids
  have c4: "updateOne idB (Fin 400) ?db = Some (db_after (transfer hex_ids ?faulty ?ba ?db))"
    by (simp add: setup_accounts_def)
  from ok wt all t0 c1 s1 c2 s2(1) c3 s3(1) c4 show ?thesis
    unfolding Let_def by blast
qed

text \<open>
  The second write of a transfer of 200 from UserB (500) to UserA (1000) is made to fail:
  the handler answers 500, UserB is left with 300 and UserA with 1000, and the sum of the
  balances has gone from 1500 to 1300. The transfer neither applied in full nor left the
  balances alone.
\<close>

theorem debit_without_credit:
  "total (setup_accounts idA idB) = 1500 \<and>
   transfer hex_ids (no_faults\<lparr>save_receiver_fails := True\<rparr>)
      \<lparr>fromAccountId = JStr idB, toAccountId = JStr idA, amount = JNum (Fin 200)\<rparr>
      (setup_accounts idA idB)
   = \<lparr>reply = error_during_transfer StoreError,
      db_after = [\<lparr>oid = idA, name = ''UserA'', balance = Fin 1000\<rparr>,
                  \<lparr>oid = idB, name = ''UserB'', balance = Fin 300\<rparr>],
      ops = [FindById (JStr idB), FindById (JStr idA), Save idB (Fin 300), Save idA (Fin 1200)]\<rparr> \<and>
   total [\<lparr>oid = idA, name = ''UserA'', balance = Fin 1000\<rparr>,
          \<lparr>oid = idB, name = ''UserB'', balance = Fin 300\<rparr>] = 1300"
  using sample_ids
  by (simp add: transfer_def Let_def setup_accounts_def no_faults_def sample_arith)

text \<open>
  Why the amounts are whole: a balance is a Number, and the handler's subtraction and
  addition round. The amount \<^verbatim>\<open>0.2\<close> (the Number nearest to it) moved from UserA (1000) to
  UserB (500) is answered 200, and the two stored balances then sum to
  \<open>1500 - 2\<^sup>-\<^sup>4\<^sup>4\<close>.
\<close>

lemma rounding_changes_the_sum:
  "transfer hex_ids no_faults
      \<lparr>fromAccountId = JStr idA, toAccountId = JStr idB,
       amount = JNum (Fin (3602879701896397 / 18014398509481984))\<rparr>
      (setup_accounts idA idB)
   = \<lparr>reply = transfer_successful (Fin (4397166901801779 / 4398046511104))
               (Fin (8799611459416883 / 17592186044416)),
      db_after = [\<lparr>oid = idA, name = ''UserA'', balance = Fin (4397166901801779 / 4398046511104)\<rparr>,
                  \<lparr>oid = idB, name = ''UserB'', balance = Fin (8799611459416883 / 17592186044416)\<rparr>],
      ops = [FindById (JStr idA), FindById (JStr idB),
             Save idA (Fin (4397166901801779 / 4398046511104)),
             Save idB (Fin (8799611459416883 / 17592186044416))]\<rparr> \<and>
   total [\<lparr>oid = idA, name = ''UserA'', balance = Fin (4397166901801779 / 4398046511104)\<rparr>,
          \<lparr>oid = idB, name = ''UserB'', balance = Fin (8799611459416883 / 17592186044416)\<rparr>]
     = 1500 - 1 / 17592186044416"
proof -
  have f1: "fround (1000 - 3602879701896397 / 18014398509481984)
      = Fin (4397166901801779 / 4398046511104)"
    using fround_eqI [of 9 "1000 - 3602879701896397 / 18014398509481984" 8794333803603558]
    by simp
  have f2: "fround (500 + 3602879701896397 / 18014398509481984)
      = Fin (8799611459416883 / 17592186044416)"
    using fround_eqI [of 8 "500 + 3602879701896397 / 18014398509481984" 8799611459416883]
    by simp
  show ?thesis
    using sample_ids
    by (simp add: transfer_def Let_def setup_accounts_def js_sub_def
        f1 [simplified] f2 [simplified])
qed

text \<open>
  Why the requests are served one after the other: nothing orders the operations of two
  requests in flight together. Two requests of 100, UserA to UserB and UserB to UserA, both
  read both accounts (1000 and 500) before either writes; the first saves its sender (900),
  the second saves both of its documents (400 and 1100), the first then saves its receiver
  (600). Both are answered 200 and the sum of the balances has gone from 1500 to 1700.
\<close>

lemma concurrent_transfers_change_the_sum:
  "run hex_ids [0, 0, 1, 1, 0, 1, 1, 0]
     [Start no_faults \<lparr>fromAccountId = JStr idA, toAccountId = JStr idB, amount = JNum (Fin 100)\<rparr>,
      Start no_faults \<lparr>fromAccountId = JStr idB, toAccountId = JStr idA, amount = JNum (Fin 100)\<rparr>]
     (setup_accounts idA idB)
   = ([Done (transfer_successful (Fin 900) (Fin 600)),
       Done (transfer_successful (Fin 400) (Fin 1100))],
      [\<lparr>oid = idA, name = ''UserA'', balance = Fin 1100\<rparr>,
       \<lparr>oid = idB, name = ''UserB'', balance = Fin 600\<rparr>]) \<and>
   total (setup_accounts idA idB) = 1500 \<and>
   total [\<lparr>oid = idA, name = ''UserA'', balance = Fin 1100\<rparr>,
          \<lparr>oid = idB, name = ''UserB'', balance = Fin 600\<rparr>] = 1700"
  using sample_ids
  by (simp add: Let_def setup_accounts_def sample_arith total_def)

section \<open>Transfers there and back\<close>

lemma length_alternate [simp]: "length (alternate n x y a) = n"
  by (induction n x y a rule: alternate.induct) simp_all

lemma strict_eq_sym: "strict_eq x y = strict_eq y x"
  by (cases x; cases y) auto

lemma validate_swap:
  assumes "validate m \<lparr>fromAccountId = x, toAccountId = y, amount = a\<rparr> = None"
  shows "validate m \<lparr>fromAccountId = y, toAccountId = x, amount = a\<rparr> = None"
  using assms strict_eq_sym [of x y] by (simp add: validate_None_iff)

lemma there_and_back:
  assumes v: "validate m \<lparr>fromAccountId = x, toAccountId = y, amount = a\<rparr> = None"
    and c: "castObjectId m x = Some kx" "castObjectId m y = Some ky"
    and ne: "kx \<noteq> ky"
    and d: "distinct (map oid db)"
    and l: "lookup kx db = Some s" "lookup ky db = Some r"
    and n: "name s \<noteq> []" "name r \<noteq> []"
    and w: "whole (balance s)" "whole (balance r)" "whole (num_of a)"
    and enough: "value_of (num_of a) \<le> value_of (balance s)"
    and room: "value_of (balance r) + value_of (num_of a) \<le> 2 ^ 53"
  shows "transfers m
           [(no_faults, \<lparr>fromAccountId = x, toAccountId = y, amount = a\<rparr>),
            (no_faults, \<lparr>fromAccountId = y, toAccountId = x, amount = a\<rparr>)] db
         = ([transfer_successful (Fin (value_of (balance s) - value_of (num_of a)))
               (Fin (value_of (balance r) + value_of (num_of a))),
             transfer_successful (balance r) (balance s)], db)"
proof -
  let ?xy = "\<lparr>fromAccountId = x, toAccountId = y, amount = a\<rparr>"
  let ?yx = "\<lparr>fromAccountId = y, toAccountId = x, amount = a\<rparr>"
  obtain bs :: int where bs: "balance s = Fin (of_int bs)" "0 \<le> bs" "bs \<le> 2 ^ 53"
    using w(1) by (auto simp: whole_iff)
  obtain br :: int where br: "balance r = Fin (of_int br)" "0 \<le> br" "br \<le> 2 ^ 53"
    using w(2) by (auto simp: whole_iff)
  obtain k :: int where k: "num_of a = Fin (of_int k)" "0 \<le> k" "k \<le> 2 ^ 53"
    using w(3) by (auto simp: whole_iff)
  have kbs: "k \<le> bs" using enough by (simp add: bs k)
  have "(of_int (br + k) :: rat) \<le> 2 ^ 53" using room by (simp add: br k)
  then have sum: "br + k \<le> 2 ^ 53"
    by (metis of_int_le_iff of_int_numeral of_int_power)
  let ?b1 = "Fin (of_int (bs - k))" and ?b2 = "Fin (of_int (br + k))"
  let ?db2 = "map (set_balance ky ?b2) (map (set_balance kx ?b1) db)"
  have os: "oid s = kx" and or: "oid r = ky"
    using lookup_oid [OF l(1)] lookup_oid [OF l(2)] by simp_all
  have t1: "transfer m no_faults ?xy db =
      \<lparr>reply = transfer_successful ?b1 ?b2, db_after = ?db2,
       ops = [FindById x, FindById y, Save kx ?b1, Save ky ?b2]\<rparr>"
  proof -
    have "js_sub (balance s) (num_of (amount ?xy)) = ?b1"
      unfolding bs using k bs kbs by (simp add: js_sub_whole)
    moreover have "js_add (balance r) (num_of a) = ?b2"
      unfolding br k using k br sum by (intro js_add_whole) simp
    moreover have "\<not> js_lt (balance s) (num_of (amount ?xy))"
      using kbs by (simp add: bs k)
    moreover have "js_le (Fin 0) ?b1" "js_le (Fin 0) ?b2"
      using kbs br k by simp_all
    ultimately show ?thesis
      using transfer_succeeds [of m ?xy kx ky db s r ?b1 ?b2] v c ne d l n by simp
  qed
  have d2: "distinct (map oid ?db2)" using d by (simp add: comp_def)
  have ls: "lookup kx ?db2 = Some (s\<lparr>balance := ?b1\<rparr>)"
    using l(1) ne os by (simp add: lookup_map set_balance_def)
  have lr: "lookup ky ?db2 = Some (r\<lparr>balance := ?b2\<rparr>)"
    using l(2) ne or by (simp add: lookup_map set_balance_def)
  let ?db4 = "map (set_balance kx (balance s)) (map (set_balance ky (balance r)) ?db2)"
  have t2: "transfer m no_faults ?yx ?db2 =
      \<lparr>reply = transfer_successful (balance r) (balance s), db_after = ?db4,
       ops = [FindById y, FindById x, Save ky (balance r), Save kx (balance s)]\<rparr>"
  proof -
    have "js_sub (balance (r\<lparr>balance := ?b2\<rparr>)) (num_of (amount ?yx)) = balance r"
      using js_sub_whole [of "br + k" k] br k by simp
    moreover have "js_add (balance (s\<lparr>balance := ?b1\<rparr>)) (num_of (amount ?yx)) = balance s"
      using js_add_whole [of "bs - k" k] bs k by simp
    moreover have "\<not> js_lt (balance (r\<lparr>balance := ?b2\<rparr>)) (num_of (amount ?yx))"
      using br by (simp add: k)
    moreover have "js_le (Fin 0) (balance r)" "js_le (Fin 0) (balance s)"
      using bs br by simp_all
    ultimately show ?thesis
      using transfer_succeeds [of m ?yx ky kx ?db2 "r\<lparr>balance := ?b2\<rparr>" "s\<lparr>balance := ?b1\<rparr>"
          "balance r" "balance s"] validate_swap [OF v] c ne d2 ls lr n
      by simp
  qed
  have restored: "?db4 = db"
  proof -
    have "set_balance kx (balance s) (set_balance ky (balance r)
            (set_balance ky ?b2 (set_balance kx ?b1 c))) = c" if "c \<in> set db" for c
    proof -
      consider "oid c = kx" | "oid c = ky" | "oid c \<noteq> kx" "oid c \<noteq> ky" by blast
      then show ?thesis
      proof cases
        case 1
        then have "c = s" using lookup_unique [OF d l(1) that] by simp
        with ne os show ?thesis by (simp add: set_balance_def)
      next
        case 2
        then have "c = r" using lookup_unique [OF d l(2) that] by simp
        with ne or show ?thesis by (simp add: set_balance_def)
      next
        case 3
        then show ?thesis by (simp add: set_balance_def)
      qed
    qed
    then show ?thesis by (simp add: map_idI)
  qed
  have r1: "reply (transfer m no_faults ?xy db) = transfer_successful ?b1 ?b2"
    and a1: "db_after (transfer m no_faults ?xy db) = ?db2"
    by (simp_all only: t1 outcome.select_convs)
  have r2: "reply (transfer m no_faults ?yx ?db2) = transfer_successful (balance r) (balance s)"
    and a2: "db_after (transfer m no_faults ?yx ?db2) = db"
    by (simp_all only: t2 restored outcome.select_convs)
  have e: "transfers m [(no_faults, ?xy), (no_faults, ?yx)] db =
      ([reply (transfer m no_faults ?xy db),
        reply (transfer m no_faults ?yx (db_after (transfer m no_faults ?xy db)))],
       db_after (transfer m no_faults ?yx (db_after (transfer m no_faults ?xy db))))"
    by (simp add: Let_def)
  show ?thesis
    unfolding e a1 r1 r2 a2 by (simp add: bs br k)
qed

text \<open>
  \<^bold>\<open>C3\<close> (same-pair transfers in alternating directions), as the handler has it. Take a
  collection with unique ids and in it two different accounts \<open>s\<close> and \<open>r\<close>, both with a
  name and a whole balance (a non-negative integer of at most \<open>2\<^sup>5\<^sup>3\<close>); take a request from
  \<open>s\<close> to \<open>r\<close> that passes validation, for a whole amount that \<open>s\<close> can pay and that \<open>r\<close>
  can hold without passing \<open>2\<^sup>5\<^sup>3\<close>. When an even number of requests for that amount,
  alternating in direction, are served one after the other, each from its start to its
  answer with no store operation failing, every one is answered 200 and the collection
  ends exactly as it began. The same holds of the requests in flight together when the
  schedule is the serial one. No other schedule is excluded by the handler: nothing orders
  the operations of requests that are in flight together.
\<close>

theorem serial_alternating_transfers_restore:
  assumes "validate m \<lparr>fromAccountId = x, toAccountId = y, amount = a\<rparr> = None"
    and "castObjectId m x = Some kx" "castObjectId m y = Some ky" "kx \<noteq> ky"
    and "distinct (map oid db)"
    and "lookup kx db = Some s" "lookup ky db = Some r"
    and "name s \<noteq> []" "name r \<noteq> []"
    and "whole (balance s)" "whole (balance r)" "whole (num_of a)"
    and "value_of (num_of a) \<le> value_of (balance s)"
    and "value_of (balance r) + value_of (num_of a) \<le> 2 ^ 53"
  shows "snd (transfers m (map (Pair no_faults) (alternate (2 * n) x y a)) db) = db \<and>
         list_all (\<lambda>r. status r = 200)
           (fst (transfers m (map (Pair no_faults) (alternate (2 * n) x y a)) db)) \<and>
         run m (serial (2 * n)) (map (Start no_faults) (alternate (2 * n) x y a)) db =
           (map Done (fst (transfers m (map (Pair no_faults) (alternate (2 * n) x y a)) db)), db)"
proof -
  let ?xs = "map (Pair no_faults) (alternate (2 * n) x y a)"
  have seq: "snd (transfers m ?xs db) = db \<and>
      list_all (\<lambda>r. status r = 200) (fst (transfers m ?xs db))"
  proof (induction n)
    case 0
    show ?case by simp
  next
    case (Suc n)
    let ?rest = "map (Pair no_faults) (alternate (2 * n) x y a)"
    have unfold: "map (Pair no_faults) (alternate (2 * Suc n) x y a) =
        [(no_faults, \<lparr>fromAccountId = x, toAccountId = y, amount = a\<rparr>),
         (no_faults, \<lparr>fromAccountId = y, toAccountId = x, amount = a\<rparr>)] @ ?rest"
      by simp
    have app: "transfers m (ps @ qs) db0 =
        (fst (transfers m ps db0) @ fst (transfers m qs (snd (transfers m ps db0))),
         snd (transfers m qs (snd (transfers m ps db0))))" for ps qs db0
      by (induction ps arbitrary: db0) (auto simp: Let_def split: prod.splits)
    show ?case
      unfolding unfold app there_and_back [OF assms]
      using Suc.IH by simp
  qed
  have tasks: "map (\<lambda>(f, req). Start f req) ?xs =
      map (Start no_faults) (alternate (2 * n) x y a)"
    by (simp add: comp_def)
  have len: "length ?xs = 2 * n" by simp
  have "run m (serial (2 * n)) (map (Start no_faults) (alternate (2 * n) x y a)) db =
      (map Done (fst (transfers m ?xs db)), snd (transfers m ?xs db))"
    using run_serial [of m ?xs db] unfolding tasks len .
  with seq show ?thesis by simp
qed

theorem serial_alternating_transfers_restore_witness:
  "(let x = JStr idA; y = JStr idB; a = JNum (Fin 100); db = setup_accounts idA idB;
        s = \<lparr>oid = idA, name = ''UserA'', balance = Fin 1000\<rparr>;
        r = \<lparr>oid = idB, name = ''UserB'', balance = Fin 500\<rparr>
    in validate hex_ids \<lparr>fromAccountId = x, toAccountId = y, amount = a\<rparr> = None \<and>
       castObjectId hex_ids x = Some idA \<and> castObjectId hex_ids y = Some idB \<and> idA \<noteq> idB \<and>
       distinct (map oid db) \<and> lookup idA db = Some s \<and> lookup idB db = Some r \<and>
       name s \<noteq> [] \<and> name r \<noteq> [] \<and>
       whole (balance s) \<and> whole (balance r) \<and> whole (num_of a) \<and>
       value_of (num_of a) \<le> value_of (balance s) \<and>
       value_of (balance r) + value_of (num_of a) \<le> 2 ^ 53 \<and>
       alternate 4 x y a =
         [\<lparr>fromAccountId = x, toAccountId = y, amount = a\<rparr>,
          \<lparr>fromAccountId = y, toAccountId = x, amount = a\<rparr>,
          \<lparr>fromAccountId = x, toAccountId = y, amount = a\<rparr>,
          \<lparr>fromAccountId = y, toAccountId = x, amount = a\<rparr>] \<and>
       snd (transfers hex_ids (map (Pair no_faults) (alternate 4 x y a)) db) = db \<and>
       list_all (\<lambda>r. status r = 200)
         (fst (transfers hex_ids (map (Pair no_faults) (alternate 4 x y a)) db)) \<and>
       run hex_ids (serial 4) (map (Start no_faults) (alternate 4 x y a)) db =
         (map Done (fst (transfers hex_ids (map (Pair no_faults) (alternate 4 x y a)) db)), db))"
proof -
  let ?x = "JStr idA" and ?y = "JStr idB" and ?a = "JNum (Fin 100)"
  let ?db = "setup_accounts idA idB"
  let ?s = "\<lparr>oid = idA, name = ''UserA'', balance = Fin 1000\<rparr>"
  let ?r = "\<lparr>oid = idB, name = ''UserB'', balance = Fin 500\<rparr>"
  have v: "validate hex_ids \<lparr>fromAccountId = ?x, toAccountId = ?y, amount = ?a\<rparr> = None"
    by simp
  have c: "castObjectId hex_ids ?x = Some idA" "castObjectId hex_ids ?y = Some idB"
    by (simp_all add: hex_ids_cast)
  have ne: "idA \<noteq> idB" by (rule sample_ids)
  have d: "distinct (map oid ?db)" using sample_ids by (simp add: setup_accounts_def)
  have l: "lookup idA ?db = Some ?s" "lookup idB ?db = Some ?r" by (simp_all add: lookup_setup)
  have n: "name ?s \<noteq> []" "name ?r \<noteq> []" by simp_all
  have w: "whole (balance ?s)" "whole (balance ?r)" "whole (num_of ?a)"
    by (simp_all add: whole_def)
  have enough: "value_of (num_of ?a) \<le> value_of (balance ?s)" by simp
  have room: "value_of (balance ?r) + value_of (num_of ?a) \<le> 2 ^ 53" by simp
  have four: "(4::nat) = 2 * 2" by simp
  have alt: "alternate 4 ?x ?y ?a =
         [\<lparr>fromAccountId = ?x, toAccountId = ?y, amount = ?a\<rparr>,
          \<lparr>fromAccountId = ?y, toAccountId = ?x, amount = ?a\<rparr>,
          \<lparr>fromAccountId = ?x, toAccountId = ?y, amount = ?a\<rparr>,
          \<lparr>fromAccountId = ?y, toAccountId = ?x, amount = ?a\<rparr>]"
    by (simp add: numeral_eq_Suc)
  from serial_alternating_transfers_restore [OF v c ne d l n w enough room, of 2]
  have "snd (transfers hex_ids (map (Pair no_faults) (alternate 4 ?x ?y ?a)) ?db) = ?db \<and>
        list_all (\<lambda>r. status r = 200)
          (fst (transfers hex_ids (map (Pair no_faults) (alternate 4 ?x ?y ?a)) ?db)) \<and>
        run hex_ids (serial 4) (map (Start no_faults) (alternate 4 ?x ?y ?a)) ?db =
          (map Done (fst (transfers hex_ids (map (Pair no_faults) (alternate 4 ?x ?y ?a)) ?db)),
           ?db)"
    unfolding four [symmetric] .
  with v c ne d l n w enough room alt show ?thesis
    unfolding Let_def by blast
qed

text \<open>
  Two requests of 100 in flight together, UserA to UserB and UserB to UserA. Both read both
  accounts (1000 and 500) before either writes; the first then saves 900 and 600, the second
  400 and 1100. Both are answered 200 and the collection ends at UserA 1100, UserB 400, not
  at 1000 and 500: each request's second save overwrote the other's first.
\<close>

theorem interleaved_transfers_lose_update:
  "run hex_ids [0, 0, 1, 1, 0, 0, 1, 1]
     [Start no_faults \<lparr>fromAccountId = JStr idA, toAccountId = JStr idB, amount = JNum (Fin 100)\<rparr>,
      Start no_faults \<lparr>fromAccountId = JStr idB, toAccountId = JStr idA, amount = JNum (Fin 100)\<rparr>]
     (setup_accounts idA idB)
   = ([Done (transfer_successful (Fin 900) (Fin 600)),
       Done (transfer_successful (Fin 400) (Fin 1100))],
      [\<lparr>oid = idA, name = ''UserA'', balance = Fin 1100\<rparr>,
       \<lparr>oid = idB, name = ''UserB'', balance = Fin 400\<rparr>])"
  using sample_ids
  by (simp add: Let_def setup_accounts_def sample_arith)

end
